theory Spec2Isabelle
  imports Main "HOL-Library.AList" "HOL-Library.Char_ord" "HOL-Library.List_Lexorder"
begin

section \<open>Data model\<close>

text \<open>
  Timestamps (Python \<open>datetime\<close> values) are integers on one time line; \<open>>\<close> on them is
  the comparison the reconcilers use.  All of them are taken to carry a timezone, so that
  any two compare.  A property value of an iCalendar component (\<open>prop.dt\<close>) is either a
  \<open>datetime\<close> or a plain \<open>date\<close>.
\<close>

datatype dtval = DateTime int | Date int

text \<open>
  One component yielded by \<open>cal.walk()\<close>, with the properties the engine reads through
  \<open>comp.get(...)\<close>; \<open>None\<close> is an absent property.
\<close>

record vcomp =
  cname :: string
  UID :: "string option"
  LAST_MODIFIED :: "dtval option"
  DTSTAMP :: "dtval option"
  SUMMARY :: "string option"
  DTSTART :: "dtval option"
  DTEND :: "dtval option"

text \<open>
  Raw iCalendar bytes: either \<open>ICalendar.from_ical\<close> raises on them (\<open>Garbage\<close>), or they
  parse to a calendar whose \<open>walk()\<close> yields the given components in order.
\<close>

datatype ical = Garbage | Cal "vcomp list"

text \<open>A fetched \<open>CaldavEvent\<close>: its \<open>.url\<close> and the bytes \<open>.to_ical()\<close> returns.\<close>

record event =
  url :: string
  raw :: ical

datatype error =
  ValueError | AttributeError | KeyError | TypeError | JSONDecodeError | OSError | PutError

text \<open>
  Backend calls, as the sync functions issue them, in the order of issue.  In the two
  one-way modes \<open>client_source\<close> is \<open>client_a\<close> and \<open>client_target\<close> is \<open>client_b\<close>.
  A backend call returns normally, except the \<open>create_event\<close> of a placeholder in BUSY
  mode, which may raise \<open>PutError\<close>: the one backend exception a sync function handles.
\<close>

datatype client = client_a | client_b

abbreviation client_source :: client where "client_source \<equiv> client_a"
abbreviation client_target :: client where "client_target \<equiv> client_b"

datatype call =
  create_event client ical
| update_event client string ical
| delete_event client string

text \<open>
  JSON documents.  A JSON string is split by what \<open>datetime.fromisoformat\<close> does with it:
  \<open>JTime t\<close> is the \<open>isoformat()\<close> text of the timestamp \<open>t\<close>, \<open>JStr s\<close> is any other text
  (on which \<open>fromisoformat\<close> raises \<open>ValueError\<close>).
\<close>

datatype json =
  JNull
| JNum int
| JStr string
| JTime int
| JList "json list"
| JDict "(string \<times> json) list"

text \<open>
  What is at \<open>state_path\<close>: nothing (\<open>os.path.exists\<close> is false), a file that cannot be
  opened or read, a file \<open>json.load\<close> rejects, or a JSON document.
\<close>

datatype state_file = Missing | Unreadable | Malformed | Parsed json

text \<open>
  Python dicts are association lists in insertion order: \<open>d[k] = v\<close> is \<open>AList.update\<close>,
  \<open>d.pop(k)\<close> is \<open>AList.delete\<close>, \<open>k in d\<close> is \<open>has\<close>, and \<open>d[k]\<close>, which the source
  only evaluates under a membership test, is \<open>item\<close>.
\<close>

definition keys :: "('k \<times> 'v) list \<Rightarrow> 'k list" where
  "keys d = map fst d"

definition has :: "('k \<times> 'v) list \<Rightarrow> 'k \<Rightarrow> bool" where
  "has d k = (map_of d k \<noteq> None)"

definition item :: "('k \<times> 'v) list \<Rightarrow> 'k \<Rightarrow> 'v" where
  "item d k = the (map_of d k)"

section \<open>iCalendar codec\<close>

definition first_vevent :: "vcomp list \<Rightarrow> vcomp option" where
  "first_vevent walk = find (\<lambda>cmp. cname cmp = ''VEVENT'') walk"

text \<open>
  \<open>_parse_ical_metadata\<close>: the UID (\<open>str(None)\<close> when absent) and LAST-MODIFIED, or
  DTSTAMP when LAST-MODIFIED is absent, of the first VEVENT; \<open>ValueError\<close> when the value
  is not a \<open>datetime\<close> or no VEVENT exists.
\<close>

definition parse_ical_metadata :: "ical \<Rightarrow> error + (string \<times> int)" where
  "parse_ical_metadata ical_bytes =
     (case ical_bytes of
        Garbage \<Rightarrow> Inl ValueError
      | Cal walk \<Rightarrow>
          (case first_vevent walk of
             None \<Rightarrow> Inl ValueError
           | Some cmp \<Rightarrow>
               (let uid = (case UID cmp of None \<Rightarrow> ''None'' | Some u \<Rightarrow> u);
                    lm = (case LAST_MODIFIED cmp of Some v \<Rightarrow> Some v | None \<Rightarrow> DTSTAMP cmp)
                in case lm of
                     Some (DateTime last_mod) \<Rightarrow> Inr (uid, last_mod)
                   | _ \<Rightarrow> Inl ValueError)))"

text \<open>\<open>_get_summary\<close>: the SUMMARY of the first VEVENT (\<open>None\<close> when absent), \<open>""\<close> without VEVENT.\<close>

definition get_summary :: "ical \<Rightarrow> error + string option" where
  "get_summary raw_ical =
     (case raw_ical of
        Garbage \<Rightarrow> Inl ValueError
      | Cal walk \<Rightarrow>
          (case first_vevent walk of
             None \<Rightarrow> Inr (Some '''')
           | Some cmp \<Rightarrow> Inr (SUMMARY cmp)))"

text \<open>\<open>_parse_dt_range\<close>: \<open>.dt\<close> of an absent property raises \<open>AttributeError\<close>.\<close>

definition parse_dt_range :: "ical \<Rightarrow> error + (dtval \<times> dtval)" where
  "parse_dt_range ical_bytes =
     (case ical_bytes of
        Garbage \<Rightarrow> Inl ValueError
      | Cal walk \<Rightarrow>
          (case first_vevent walk of
             None \<Rightarrow> Inl ValueError
           | Some cmp \<Rightarrow>
               (case (DTSTART cmp, DTEND cmp) of
                  (Some dtstart, Some dtend) \<Rightarrow> Inr (dtstart, dtend)
                | _ \<Rightarrow> Inl AttributeError)))"

text \<open>
  \<open>_build_busy_ical\<close>: a VCALENDAR holding one VEVENT with the uid, DTSTAMP = the clock
  reading \<open>now\<close>, the two times and SUMMARY "Busy"; no LAST-MODIFIED.
\<close>

definition build_busy_ical :: "int \<Rightarrow> string \<Rightarrow> dtval \<Rightarrow> dtval \<Rightarrow> ical" where
  "build_busy_ical now uid dtstart dtend =
     Cal [\<lparr>cname = ''VCALENDAR'', UID = None, LAST_MODIFIED = None, DTSTAMP = None,
            SUMMARY = None, DTSTART = None, DTEND = None\<rparr>,
          \<lparr>cname = ''VEVENT'', UID = Some uid, LAST_MODIFIED = None,
            DTSTAMP = Some (DateTime now), SUMMARY = Some ''Busy'',
            DTSTART = Some dtstart, DTEND = Some dtend\<rparr>]"

text \<open>
  \<open>_update_src_ical\<close>: every VEVENT gets the new DTSTART and DTEND; \<open>comp["DTSTART"]\<close> of a
  VEVENT without that property raises \<open>KeyError\<close>.
\<close>

fun patch_walk :: "dtval \<Rightarrow> dtval \<Rightarrow> vcomp list \<Rightarrow> error + vcomp list" where
  "patch_walk new_start new_end [] = Inr []"
| "patch_walk new_start new_end (cmp # rest) =
     (if cname cmp = ''VEVENT'' then
        (if DTSTART cmp = None \<or> DTEND cmp = None then Inl KeyError
         else (case patch_walk new_start new_end rest of
                 Inl e \<Rightarrow> Inl e
               | Inr rest' \<Rightarrow>
                   Inr (cmp\<lparr>DTSTART := Some new_start, DTEND := Some new_end\<rparr> # rest')))
      else (case patch_walk new_start new_end rest of
              Inl e \<Rightarrow> Inl e
            | Inr rest' \<Rightarrow> Inr (cmp # rest')))"

definition update_src_ical :: "ical \<Rightarrow> dtval \<Rightarrow> dtval \<Rightarrow> error + ical" where
  "update_src_ical raw_bytes new_start new_end =
     (case raw_bytes of
        Garbage \<Rightarrow> Inl ValueError
      | Cal walk \<Rightarrow>
          (case patch_walk new_start new_end walk of
             Inl e \<Rightarrow> Inl e
           | Inr walk' \<Rightarrow> Inr (Cal walk')))"

section \<open>FULL mode: \<open>sync_caldav_caldav\<close>\<close>

text \<open>\<open>datetime.fromisoformat(ts)\<close> on a JSON value: \<open>TypeError\<close> when it is not a string.\<close>

definition fromisoformat :: "json \<Rightarrow> error + int" where
  "fromisoformat ts =
     (case ts of JTime t \<Rightarrow> Inr t | JStr s \<Rightarrow> Inl ValueError | _ \<Rightarrow> Inl TypeError)"

text \<open>The comprehension \<open>{uid: datetime.fromisoformat(ts) for uid, ts in d.items()}\<close>.\<close>

fun parse_entries :: "(string \<times> json) list \<Rightarrow> (string \<times> int) list \<Rightarrow> error + (string \<times> int) list" where
  "parse_entries [] acc = Inr acc"
| "parse_entries ((uid, ts) # rest) acc =
     (case fromisoformat ts of
        Inl e \<Rightarrow> Inl e
      | Inr t \<Rightarrow> parse_entries rest (AList.update uid t acc))"

text \<open>Step 1 of \<open>sync_caldav_caldav\<close>: no \<open>try\<close>, no mode tag.\<close>

definition load_full :: "state_file \<Rightarrow> error + (string \<times> int) list" where
  "load_full f =
     (case f of
        Missing \<Rightarrow> Inr []
      | Unreadable \<Rightarrow> Inl OSError
      | Malformed \<Rightarrow> Inl JSONDecodeError
      | Parsed (JDict old_state) \<Rightarrow> parse_entries old_state []
      | Parsed _ \<Rightarrow> Inl AttributeError)"

text \<open>
  The loops that build \<open>meta_a\<close> and \<open>meta_b\<close>: \<open>meta[uid] = (lm, e)\<close> for each fetched
  event; an exception of \<open>_parse_ical_metadata\<close> is not caught.
\<close>

fun build_meta :: "event list \<Rightarrow> (string \<times> int \<times> event) list \<Rightarrow> error + (string \<times> int \<times> event) list" where
  "build_meta [] meta = Inr meta"
| "build_meta (e # evts) meta =
     (case parse_ical_metadata (raw e) of
        Inl err \<Rightarrow> Inl err
      | Inr (uid, lm) \<Rightarrow> build_meta evts (AList.update uid (lm, e) meta))"

text \<open>
  One turn of the reconcile loop, on the calls issued so far and \<open>new_state\<close>.
\<close>

definition full_iter ::
  "(string \<times> int) list \<Rightarrow> (string \<times> int \<times> event) list \<Rightarrow> (string \<times> int \<times> event) list \<Rightarrow>
   string \<Rightarrow> call list \<times> (string \<times> int) list \<Rightarrow> call list \<times> (string \<times> int) list" where
  "full_iter old_state meta_a meta_b uid st =
     (let calls = fst st; new_state = snd st;
          in_a = has meta_a uid; in_b = has meta_b uid;
          prev = has old_state uid
      in
      if prev \<and> in_a \<and> \<not> in_b then
        (calls @ [delete_event client_a (url (snd (item meta_a uid)))], new_state)
      else if prev \<and> in_b \<and> \<not> in_a then
        (calls @ [delete_event client_b (url (snd (item meta_b uid)))], new_state)
      else if \<not> prev \<and> in_a \<and> \<not> in_b then
        (calls @ [create_event client_b (raw (snd (item meta_a uid)))],
         AList.update uid (fst (item meta_a uid)) new_state)
      else if \<not> prev \<and> in_b \<and> \<not> in_a then
        (calls @ [create_event client_a (raw (snd (item meta_b uid)))],
         AList.update uid (fst (item meta_b uid)) new_state)
      else if in_a \<and> in_b then
        (let lm_a = fst (item meta_a uid); evt_a = snd (item meta_a uid);
             lm_b = fst (item meta_b uid); evt_b = snd (item meta_b uid)
         in
         if lm_a > lm_b then
           (calls @ [update_event client_b (url evt_b) (raw evt_a)],
            AList.update uid lm_a new_state)
         else if lm_b > lm_a then
           (calls @ [update_event client_a (url evt_a) (raw evt_b)],
            AList.update uid lm_b new_state)
         else (calls, AList.update uid lm_a new_state))
      else (calls, new_state))"

text \<open>
  \<open>all_uids\<close> is a Python set; its iteration order is not specified, and the union is
  taken here in the order old state, A, B.
\<close>

definition full_all_uids ::
  "(string \<times> int) list \<Rightarrow> (string \<times> int \<times> event) list \<Rightarrow> (string \<times> int \<times> event) list \<Rightarrow> string list" where
  "full_all_uids old_state meta_a meta_b = remdups (keys old_state @ keys meta_a @ keys meta_b)"

definition full_reconcile ::
  "(string \<times> int) list \<Rightarrow> (string \<times> int \<times> event) list \<Rightarrow> (string \<times> int \<times> event) list \<Rightarrow>
   call list \<times> (string \<times> int) list" where
  "full_reconcile old_state meta_a meta_b =
     foldl (\<lambda>st uid. full_iter old_state meta_a meta_b uid st) ([], [])
       (full_all_uids old_state meta_a meta_b)"

text \<open>\<open>json.dump(new_state, f)\<close>: the values are the \<open>isoformat()\<close> strings.\<close>

definition dump_entries :: "(string \<times> int) list \<Rightarrow> (string \<times> json) list" where
  "dump_entries new_state = map (\<lambda>(uid, ts). (uid, JTime ts)) new_state"

text \<open>
  A run of \<open>sync_caldav_caldav\<close>.  \<open>evts_a\<close> and \<open>evts_b\<close> are what \<open>fetch_events\<close> returns for
  the two calendars, \<open>None\<close> when \<open>get_calendar_by_name\<close> finds no calendar.  The result is
  the backend calls issued, and the exception that ended the run or the document written to
  \<open>state_path\<close>.
\<close>

definition sync_caldav_caldav ::
  "state_file \<Rightarrow> event list option \<Rightarrow> event list option \<Rightarrow> call list \<times> (error + state_file)" where
  "sync_caldav_caldav state_path cal_a cal_b =
     (case load_full state_path of
        Inl e \<Rightarrow> ([], Inl e)
      | Inr old_state \<Rightarrow>
          (case (cal_a, cal_b) of
             (Some evts_a, Some evts_b) \<Rightarrow>
               (case build_meta evts_a [] of
                  Inl e \<Rightarrow> ([], Inl e)
                | Inr meta_a \<Rightarrow>
                    (case build_meta evts_b [] of
                       Inl e \<Rightarrow> ([], Inl e)
                     | Inr meta_b \<Rightarrow>
                         (let r = full_reconcile old_state meta_a meta_b
                          in (fst r, Inr (Parsed (JDict (dump_entries (snd r))))))))
           | _ \<Rightarrow> ([], Inl ValueError)))"


text \<open>
  The FULL-mode decision table as the specification words it, row by row, on the three
  views as maps: the calls of one uid and its entry in the next state (\<open>None\<close>: omitted).
\<close>

definition full_table ::
  "(string \<rightharpoonup> int) \<Rightarrow> (string \<rightharpoonup> int \<times> event) \<Rightarrow> (string \<rightharpoonup> int \<times> event) \<Rightarrow> string \<Rightarrow>
   call list \<times> int option" where
  "full_table P A B uid =
     (if uid \<in> dom P \<and> uid \<in> dom A \<and> uid \<notin> dom B then
        ([delete_event client_a (url (snd (the (A uid))))], None)
      else if uid \<in> dom P \<and> uid \<in> dom B \<and> uid \<notin> dom A then
        ([delete_event client_b (url (snd (the (B uid))))], None)
      else if uid \<notin> dom P \<and> uid \<in> dom A \<and> uid \<notin> dom B then
        ([create_event client_b (raw (snd (the (A uid))))], Some (fst (the (A uid))))
      else if uid \<notin> dom P \<and> uid \<in> dom B \<and> uid \<notin> dom A then
        ([create_event client_a (raw (snd (the (B uid))))], Some (fst (the (B uid))))
      else if uid \<in> dom A \<and> uid \<in> dom B \<and> fst (the (A uid)) > fst (the (B uid)) then
        ([update_event client_b (url (snd (the (B uid)))) (raw (snd (the (A uid))))],
         Some (fst (the (A uid))))
      else if uid \<in> dom A \<and> uid \<in> dom B \<and> fst (the (B uid)) > fst (the (A uid)) then
        ([update_event client_a (url (snd (the (A uid)))) (raw (snd (the (B uid))))],
         Some (fst (the (B uid))))
      else if uid \<in> dom A \<and> uid \<in> dom B \<and> fst (the (A uid)) = fst (the (B uid)) then
        ([], Some (fst (the (A uid))))
      else ([], None))"

section \<open>FULL_ONEWAY mode: \<open>sync_caldav_full_oneway\<close>\<close>

text \<open>
  The loop over \<open>data.items()\<close> inside the \<open>try\<close>: an exception of \<open>fromisoformat\<close> ends the
  loop and is swallowed by \<open>except Exception\<close>; the entries stored before it stay in
  \<open>old_state\<close>.
\<close>

fun oneway_entries :: "(string \<times> json) list \<Rightarrow> (string \<times> int) list \<Rightarrow> (string \<times> int) list" where
  "oneway_entries [] old_state = old_state"
| "oneway_entries ((uid, ts) # rest) old_state =
     (if uid = ''__mode'' then oneway_entries rest old_state
      else (case fromisoformat ts of
              Inl e \<Rightarrow> old_state
            | Inr t \<Rightarrow> oneway_entries rest (AList.update uid t old_state)))"

definition load_oneway :: "state_file \<Rightarrow> (string \<times> int) list" where
  "load_oneway f =
     (case f of
        Parsed (JDict data) \<Rightarrow>
          (if map_of data ''__mode'' = Some (JStr ''full_oneway'') then oneway_entries data []
           else [])
      | _ \<Rightarrow> [])"

text \<open>
  Step 4 for the source: an event whose first VEVENT has SUMMARY "Busy" is left out
  before its metadata is read; \<open>ICalendar.from_ical\<close> is called on every event.
\<close>

fun build_meta_src :: "event list \<Rightarrow> (string \<times> int \<times> ical) list \<Rightarrow> error + (string \<times> int \<times> ical) list" where
  "build_meta_src [] meta_src = Inr meta_src"
| "build_meta_src (e # evts) meta_src =
     (case raw e of
        Garbage \<Rightarrow> Inl ValueError
      | Cal walk \<Rightarrow>
          (let summ = (case first_vevent walk of None \<Rightarrow> None | Some c \<Rightarrow> SUMMARY c)
           in if summ = Some ''Busy'' then build_meta_src evts meta_src
              else (case parse_ical_metadata (raw e) of
                      Inl err \<Rightarrow> Inl err
                    | Inr (uid, lm) \<Rightarrow> build_meta_src evts (AList.update uid (lm, raw e) meta_src))))"

definition oneway_iter ::
  "(string \<times> int) list \<Rightarrow> (string \<times> int \<times> ical) list \<Rightarrow> (string \<times> int \<times> event) list \<Rightarrow>
   string \<Rightarrow> call list \<times> (string \<times> int) list \<Rightarrow> call list \<times> (string \<times> int) list" where
  "oneway_iter old_state meta_src meta_tgt uid st =
     (let calls = fst st; new_state = snd st;
          in_src = has meta_src uid; in_tgt = has meta_tgt uid;
          prev = has old_state uid
      in
      if prev \<and> \<not> in_src \<and> in_tgt then
        (calls @ [delete_event client_target (url (snd (item meta_tgt uid)))], new_state)
      else if in_src \<and> \<not> in_tgt then
        (calls @ [create_event client_target (snd (item meta_src uid))],
         AList.update uid (fst (item meta_src uid)) new_state)
      else if in_src \<and> in_tgt then
        (let lm_src = fst (item meta_src uid); raw_src = snd (item meta_src uid);
             lm_tgt = fst (item meta_tgt uid); te = snd (item meta_tgt uid)
         in
         if lm_src > lm_tgt then
           (calls @ [update_event client_target (url te) raw_src],
            AList.update uid lm_src new_state)
         else (calls, AList.update uid lm_tgt new_state))
      else (calls, new_state))"

definition oneway_all_uids ::
  "(string \<times> int) list \<Rightarrow> (string \<times> int \<times> ical) list \<Rightarrow> (string \<times> int \<times> event) list \<Rightarrow> string list" where
  "oneway_all_uids old_state meta_src meta_tgt =
     remdups (keys old_state @ keys meta_src @ keys meta_tgt)"

definition oneway_reconcile ::
  "(string \<times> int) list \<Rightarrow> (string \<times> int \<times> ical) list \<Rightarrow> (string \<times> int \<times> event) list \<Rightarrow>
   call list \<times> (string \<times> int) list" where
  "oneway_reconcile old_state meta_src meta_tgt =
     foldl (\<lambda>st uid. oneway_iter old_state meta_src meta_tgt uid st) ([], [])
       (oneway_all_uids old_state meta_src meta_tgt)"

text \<open>\<open>to_save = {"__mode": "full_oneway"}; to_save.update(new_state)\<close>.\<close>

definition oneway_to_save :: "(string \<times> int) list \<Rightarrow> (string \<times> json) list" where
  "oneway_to_save new_state =
     foldl (\<lambda>d kv. AList.update (fst kv) (snd kv) d) [(''__mode'', JStr ''full_oneway'')]
       (dump_entries new_state)"

definition sync_caldav_full_oneway ::
  "state_file \<Rightarrow> event list option \<Rightarrow> event list option \<Rightarrow> call list \<times> (error + state_file)" where
  "sync_caldav_full_oneway state_path cal_src cal_tgt =
     (let old_state = load_oneway state_path
      in case (cal_src, cal_tgt) of
           (Some src_events, Some tgt_events) \<Rightarrow>
             (case build_meta_src src_events [] of
                Inl e \<Rightarrow> ([], Inl e)
              | Inr meta_src \<Rightarrow>
                  (case build_meta tgt_events [] of
                     Inl e \<Rightarrow> ([], Inl e)
                   | Inr meta_tgt \<Rightarrow>
                       (let r = oneway_reconcile old_state meta_src meta_tgt
                        in (fst r, Inr (Parsed (JDict (oneway_to_save (snd r))))))))
         | _ \<Rightarrow> ([], Inl ValueError))"


section \<open>BUSY mode: \<open>sync_caldav_busy\<close>\<close>

text \<open>
  The persisted state; the fields are the keys of the JSON document.  Python sets are
  lists without repetition, \<open>s.add(x)\<close> is \<open>List.insert\<close> and \<open>s.discard(x)\<close> is
  \<open>removeAll\<close>; the order in a list stands for the unspecified iteration order of a set.
\<close>

record busy_state =
  synced :: "(string \<times> int) list"
  busy_uids :: "string list"
  tombstones :: "string list"
  real_uids :: "string list"

text \<open>
  \<open>data.get(key, {}).items()\<close> and \<open>set(data.get(key, []))\<close> on the loaded document.  The
  uid sets of the model hold strings only: a list with an element that is not a plain
  string is outside the model and reported as \<open>TypeError\<close>.
\<close>

definition get_items :: "(string \<times> json) list \<Rightarrow> string \<Rightarrow> error + (string \<times> json) list" where
  "get_items data key =
     (case map_of data key of
        None \<Rightarrow> Inr []
      | Some (JDict d) \<Rightarrow> Inr d
      | Some _ \<Rightarrow> Inl AttributeError)"

fun uid_strings :: "json list \<Rightarrow> error + string list" where
  "uid_strings [] = Inr []"
| "uid_strings (JStr s # rest) =
     (case uid_strings rest of Inl e \<Rightarrow> Inl e | Inr us \<Rightarrow> Inr (s # us))"
| "uid_strings (_ # rest) = Inl TypeError"

definition get_set :: "(string \<times> json) list \<Rightarrow> string \<Rightarrow> error + string list" where
  "get_set data key =
     (case map_of data key of
        None \<Rightarrow> Inr []
      | Some (JList xs) \<Rightarrow>
          (case uid_strings xs of Inl e \<Rightarrow> Inl e | Inr us \<Rightarrow> Inr (remdups us))
      | Some (JDict d) \<Rightarrow> Inr (keys d)
      | Some (JStr s) \<Rightarrow> Inr (remdups (map (\<lambda>c. [c]) s))
      | Some _ \<Rightarrow> Inl TypeError)"

text \<open>Step 1 of \<open>sync_caldav_busy\<close>: no \<open>try\<close>, no mode tag.\<close>

definition load_busy :: "state_file \<Rightarrow> error + busy_state" where
  "load_busy f =
     (case f of
        Missing \<Rightarrow> Inr \<lparr>synced = [], busy_uids = [], tombstones = [], real_uids = []\<rparr>
      | Unreadable \<Rightarrow> Inl OSError
      | Malformed \<Rightarrow> Inl JSONDecodeError
      | Parsed (JDict data) \<Rightarrow>
          (case get_items data ''synced'' of
             Inl e \<Rightarrow> Inl e
           | Inr entries \<Rightarrow>
               (case parse_entries entries [] of
                  Inl e \<Rightarrow> Inl e
                | Inr old_synced \<Rightarrow>
                    (case get_set data ''busy_uids'' of
                       Inl e \<Rightarrow> Inl e
                     | Inr old_busy \<Rightarrow>
                         (case get_set data ''tombstones'' of
                            Inl e \<Rightarrow> Inl e
                          | Inr tombs \<Rightarrow>
                              (case get_set data ''real_uids'' of
                                 Inl e \<Rightarrow> Inl e
                               | Inr old_real_uids \<Rightarrow>
                                   Inr \<lparr>synced = old_synced, busy_uids = old_busy,
                                        tombstones = tombs, real_uids = old_real_uids\<rparr>)))))
      | Parsed _ \<Rightarrow> Inl AttributeError)"

text \<open>Step 4a: \<open>src_meta[uid] = (e, raw, lm)\<close>.\<close>

fun build_src_meta ::
  "event list \<Rightarrow> (string \<times> event \<times> ical \<times> int) list \<Rightarrow> error + (string \<times> event \<times> ical \<times> int) list" where
  "build_src_meta [] src_meta = Inr src_meta"
| "build_src_meta (e # evts) src_meta =
     (case parse_ical_metadata (raw e) of
        Inl err \<Rightarrow> Inl err
      | Inr (uid, lm) \<Rightarrow> build_src_meta evts (AList.update uid (e, raw e, lm) src_meta))"

text \<open>Step 4b, on \<open>(real_meta, busy_meta, real_uids)\<close>.\<close>

fun build_tgt_meta ::
  "event list \<Rightarrow>
   (string \<times> event \<times> ical \<times> int) list \<times> (string \<times> event \<times> ical \<times> int) list \<times> string list \<Rightarrow>
   error + (string \<times> event \<times> ical \<times> int) list \<times> (string \<times> event \<times> ical \<times> int) list \<times> string list" where
  "build_tgt_meta [] acc = Inr acc"
| "build_tgt_meta (e # evts) (real_meta, busy_meta, real_uids_now) =
     (case parse_ical_metadata (raw e) of
        Inl err \<Rightarrow> Inl err
      | Inr (uid, lm) \<Rightarrow>
          (case get_summary (raw e) of
             Inl err \<Rightarrow> Inl err
           | Inr summ \<Rightarrow>
               (if summ \<noteq> Some ''Busy'' then
                  build_tgt_meta evts
                    (AList.update uid (e, raw e, lm) real_meta, busy_meta,
                     List.insert uid real_uids_now)
                else
                  build_tgt_meta evts
                    (real_meta, AList.update uid (e, raw e, lm) busy_meta, real_uids_now))))"

text \<open>
  The block before step 5, on \<open>(calls, tombstones)\<close>: one turn for a uid of
  \<open>deleted_on_a\<close>.
\<close>

definition deleted_on_a_iter ::
  "(string \<times> event \<times> ical \<times> int) list \<Rightarrow> call list \<times> string list \<Rightarrow> string \<Rightarrow>
   call list \<times> string list" where
  "deleted_on_a_iter real_meta st uid =
     (let calls = fst st; tombs = snd st;
          calls' = (if has real_meta uid
                    then calls @ [delete_event client_target (url (fst (item real_meta uid)))]
                    else calls)
      in (calls', List.insert uid tombs))"

text \<open>
  Steps 5 and 6 have the same loop body, on \<open>(calls, src_meta, tombstones)\<close>: one turn
  for a uid of \<open>deleted_real\<close> or of \<open>deleted_busy\<close>.
\<close>

definition deleted_on_b_iter ::
  "call list \<times> (string \<times> event \<times> ical \<times> int) list \<times> string list \<Rightarrow> string \<Rightarrow>
   call list \<times> (string \<times> event \<times> ical \<times> int) list \<times> string list" where
  "deleted_on_b_iter st uid =
     (let calls = fst st; src_meta = fst (snd st); tombs = snd (snd st)
      in if has src_meta uid then
           (calls @ [delete_event client_source (url (fst (item src_meta uid)))],
            AList.delete uid src_meta, List.insert uid tombs)
         else (calls, src_meta, List.insert uid tombs))"

text \<open>
  The fallback loop of the \<open>except PutError\<close> branch: the calls it issues, and the
  exception \<open>_parse_ical_metadata\<close> raises in it, if any.
\<close>

fun fallback :: "event list \<Rightarrow> string \<Rightarrow> ical \<Rightarrow> call list \<times> error option" where
  "fallback [] uid busy_ical = ([], None)"
| "fallback (e # evts) uid busy_ical =
     (case parse_ical_metadata (raw e) of
        Inl err \<Rightarrow> ([], Some err)
      | Inr (u, lm) \<Rightarrow>
          (if u = uid then ([update_event client_target (url e) busy_ical], None)
           else fallback evts uid busy_ical))"

text \<open>
  The variables of the loop of step 7.  \<open>tombs\<close> is the variable \<open>tombstones\<close>.
\<close>

record busy_vars =
  calls :: "call list"
  tombs :: "string list"
  new_synced :: "(string \<times> int) list"
  new_busy :: "string list"

text \<open>
  One turn of the loop of step 7: the variables when the turn ends, and the exception that
  ended it, if any.  \<open>now uid\<close> is the reading of \<open>datetime.now\<close> when the placeholder of
  \<open>uid\<close> is built, and \<open>put_error uid\<close> says that the backend answers the \<open>create_event\<close>
  of that placeholder with \<open>PutError\<close>; every other backend call returns normally.
\<close>

definition busy_iter ::
  "(string \<times> int) list \<Rightarrow> (string \<times> event \<times> ical \<times> int) list \<Rightarrow>
   (string \<times> event \<times> ical \<times> int) list \<Rightarrow> string list \<Rightarrow> event list \<Rightarrow>
   (string \<Rightarrow> int) \<Rightarrow> (string \<Rightarrow> bool) \<Rightarrow> string \<Rightarrow> busy_vars \<Rightarrow> busy_vars \<times> error option" where
  "busy_iter old_synced src_meta busy_meta real_uids_now tgt_events now put_error uid v =
     (let in_src = has src_meta uid; in_busy = has busy_meta uid
      in
      if uid \<in> set real_uids_now then (v, None)
      else if has old_synced uid \<and> \<not> in_src \<and> in_busy then
        (v\<lparr>calls := calls v @ [delete_event client_target (url (fst (item busy_meta uid)))],
           tombs := removeAll uid (tombs v)\<rparr>, None)
      else if in_src \<and> \<not> in_busy then
        (if uid \<in> set (tombs v) then (v, None)
         else
           (let raw_src = fst (snd (item src_meta uid)); lm_src = snd (snd (item src_meta uid))
            in case parse_dt_range raw_src of
                 Inl err \<Rightarrow> (v, Some err)
               | Inr (dtstart, dtend) \<Rightarrow>
                   (let busy_ical = build_busy_ical (now uid) uid dtstart dtend;
                        v1 = v\<lparr>calls := calls v @ [create_event client_target busy_ical]\<rparr>
                    in if put_error uid then
                         (case fallback tgt_events uid busy_ical of
                            (cs, Some err) \<Rightarrow> (v1\<lparr>calls := calls v1 @ cs\<rparr>, Some err)
                          | (cs, None) \<Rightarrow>
                              (v1\<lparr>calls := calls v1 @ cs,
                                  new_synced := AList.update uid lm_src (new_synced v1),
                                  new_busy := List.insert uid (new_busy v1)\<rparr>, None))
                       else
                         (v1\<lparr>new_synced := AList.update uid lm_src (new_synced v1),
                             new_busy := List.insert uid (new_busy v1)\<rparr>, None))))
      else if in_src \<and> in_busy then
        (let e_src = fst (item src_meta uid); raw_src = fst (snd (item src_meta uid));
             lm_src = snd (snd (item src_meta uid));
             e_tgt = fst (item busy_meta uid); raw_tgt = fst (snd (item busy_meta uid));
             lm_tgt = snd (snd (item busy_meta uid))
         in
         if lm_src > lm_tgt then
           (case parse_dt_range raw_src of
              Inl err \<Rightarrow> (v, Some err)
            | Inr (dtstart, dtend) \<Rightarrow>
                (v\<lparr>calls := calls v @
                       [update_event client_target (url e_tgt)
                          (build_busy_ical (now uid) uid dtstart dtend)],
                   new_synced := AList.update uid lm_src (new_synced v),
                   new_busy := List.insert uid (new_busy v)\<rparr>, None))
         else if lm_tgt > lm_src then
           (case parse_dt_range raw_tgt of
              Inl err \<Rightarrow> (v, Some err)
            | Inr (dtstart, dtend) \<Rightarrow>
                (case update_src_ical raw_src dtstart dtend of
                   Inl err \<Rightarrow> (v, Some err)
                 | Inr updated \<Rightarrow>
                     (v\<lparr>calls := calls v @ [update_event client_source (url e_src) updated],
                        new_synced := AList.update uid lm_tgt (new_synced v),
                        new_busy := List.insert uid (new_busy v)\<rparr>, None)))
         else
           (v\<lparr>new_synced := AList.update uid lm_src (new_synced v),
              new_busy := List.insert uid (new_busy v)\<rparr>, None))
      else (v, None))"

fun busy_loop ::
  "(string \<times> int) list \<Rightarrow> (string \<times> event \<times> ical \<times> int) list \<Rightarrow>
   (string \<times> event \<times> ical \<times> int) list \<Rightarrow> string list \<Rightarrow> event list \<Rightarrow>
   (string \<Rightarrow> int) \<Rightarrow> (string \<Rightarrow> bool) \<Rightarrow> string list \<Rightarrow> busy_vars \<Rightarrow> busy_vars \<times> error option" where
  "busy_loop old_synced src_meta busy_meta real_uids_now tgt_events now put_error [] v = (v, None)"
| "busy_loop old_synced src_meta busy_meta real_uids_now tgt_events now put_error (uid # uids) v =
     (case busy_iter old_synced src_meta busy_meta real_uids_now tgt_events now put_error uid v of
        (v', Some err) \<Rightarrow> (v', Some err)
      | (v', None) \<Rightarrow>
          busy_loop old_synced src_meta busy_meta real_uids_now tgt_events now put_error uids v')"

text \<open>
  Steps 5 to 7 and the block before them, from the loaded state and the metadata of the
  two views: the variables at the end of the run, the set \<open>real_uids\<close> to persist, and the
  exception that ended the run, if any.
\<close>

definition busy_passes ::
  "busy_state \<Rightarrow> (string \<times> event \<times> ical \<times> int) list \<Rightarrow> (string \<times> event \<times> ical \<times> int) list \<Rightarrow>
   (string \<times> event \<times> ical \<times> int) list \<Rightarrow> string list \<Rightarrow> event list \<Rightarrow>
   (string \<Rightarrow> int) \<Rightarrow> (string \<Rightarrow> bool) \<Rightarrow> busy_vars \<times> error option" where
  "busy_passes old src_meta real_meta busy_meta real_uids_now tgt_events now put_error =
     (let deleted_on_a = filter (\<lambda>uid. \<not> has src_meta uid) (real_uids old);
          p1 = foldl (deleted_on_a_iter real_meta) ([], tombstones old) deleted_on_a;
          deleted_real = filter (\<lambda>uid. uid \<notin> set real_uids_now) (real_uids old);
          p2 = foldl deleted_on_b_iter (fst p1, src_meta, snd p1) deleted_real;
          deleted_busy = filter (\<lambda>uid. \<not> has busy_meta uid) (busy_uids old);
          p3 = foldl deleted_on_b_iter p2 deleted_busy;
          src_meta' = fst (snd p3);
          all_uids = sort (remdups (keys (synced old) @ keys src_meta' @ keys busy_meta))
      in busy_loop (synced old) src_meta' busy_meta real_uids_now tgt_events now put_error all_uids
           \<lparr>calls = fst p3, tombs = snd (snd p3), new_synced = [], new_busy = []\<rparr>)"

definition dump_busy :: "busy_state \<Rightarrow> json" where
  "dump_busy st =
     JDict [(''synced'', JDict (dump_entries (synced st))),
            (''busy_uids'', JList (map JStr (busy_uids st))),
            (''tombstones'', JList (map JStr (tombstones st))),
            (''real_uids'', JList (map JStr (real_uids st)))]"

text \<open>
  A run of \<open>sync_caldav_busy\<close> after the state is loaded and the metadata is built: the
  calls issued, and the exception or the state to persist.
\<close>

definition busy_reconcile ::
  "busy_state \<Rightarrow> (string \<times> event \<times> ical \<times> int) list \<Rightarrow> (string \<times> event \<times> ical \<times> int) list \<Rightarrow>
   (string \<times> event \<times> ical \<times> int) list \<Rightarrow> string list \<Rightarrow> event list \<Rightarrow>
   (string \<Rightarrow> int) \<Rightarrow> (string \<Rightarrow> bool) \<Rightarrow> call list \<times> (error + busy_state)" where
  "busy_reconcile old src_meta real_meta busy_meta real_uids_now tgt_events now put_error =
     (case busy_passes old src_meta real_meta busy_meta real_uids_now tgt_events now put_error of
        (v, Some err) \<Rightarrow> (calls v, Inl err)
      | (v, None) \<Rightarrow>
          (calls v, Inr \<lparr>synced = new_synced v, busy_uids = new_busy v,
                         tombstones = tombs v, real_uids = real_uids_now\<rparr>))"

definition sync_caldav_busy ::
  "state_file \<Rightarrow> event list option \<Rightarrow> event list option \<Rightarrow> (string \<Rightarrow> int) \<Rightarrow> (string \<Rightarrow> bool) \<Rightarrow>
   call list \<times> (error + state_file)" where
  "sync_caldav_busy state_path cal_src cal_tgt now put_error =
     (case load_busy state_path of
        Inl e \<Rightarrow> ([], Inl e)
      | Inr old \<Rightarrow>
          (case (cal_src, cal_tgt) of
             (Some src_events, Some tgt_events) \<Rightarrow>
               (case build_src_meta src_events [] of
                  Inl e \<Rightarrow> ([], Inl e)
                | Inr src_meta \<Rightarrow>
                    (case build_tgt_meta tgt_events ([], [], []) of
                       Inl e \<Rightarrow> ([], Inl e)
                     | Inr (real_meta, busy_meta, real_uids_now) \<Rightarrow>
                         (case busy_reconcile old src_meta real_meta busy_meta real_uids_now
                                 tgt_events now put_error of
                            (cs, Inl e) \<Rightarrow> (cs, Inl e)
                          | (cs, Inr st) \<Rightarrow> (cs, Inr (Parsed (dump_busy st))))))
           | _ \<Rightarrow> ([], Inl ValueError)))"


section \<open>Persisting the state file\<close>










section \<open>Predicates on the calls of a run\<close>

text \<open>A fetched event is a Busy placeholder when \<open>_get_summary\<close> of its bytes is "Busy".\<close>

definition is_busy_event :: "event \<Rightarrow> bool" where
  "is_busy_event e = (get_summary (raw e) = Inr (Some ''Busy''))"

text \<open>The uid \<open>_parse_ical_metadata\<close> reads from iCalendar bytes, if it reads one.\<close>

definition uid_of :: "ical \<Rightarrow> string option" where
  "uid_of r = (case parse_ical_metadata r of Inl e \<Rightarrow> None | Inr (uid, lm) \<Rightarrow> Some uid)"

section \<open>Example data\<close>

definition mk_ical :: "string \<Rightarrow> int \<Rightarrow> string \<Rightarrow> int \<Rightarrow> int \<Rightarrow> ical" where
  "mk_ical uid lm summ dtstart dtend =
     Cal [\<lparr>cname = ''VCALENDAR'', UID = None, LAST_MODIFIED = None, DTSTAMP = None,
            SUMMARY = None, DTSTART = None, DTEND = None\<rparr>,
          \<lparr>cname = ''VEVENT'', UID = Some uid, LAST_MODIFIED = Some (DateTime lm),
            DTSTAMP = None, SUMMARY = Some summ,
            DTSTART = Some (DateTime dtstart), DTEND = Some (DateTime dtend)\<rparr>]"

text \<open>"Lunch" on A, last modified at 10, from 12 to 13 (scenario S4).\<close>

definition lunch_a :: event where
  "lunch_a = \<lparr>url = ''a/U1.ics'', raw = mk_ical ''U1'' 10 ''Lunch'' 12 13\<rparr>"

text \<open>The placeholder of "Lunch" on B, as \<open>_build_busy_ical\<close> makes it at clock reading \<open>t\<close>.\<close>

definition busy_b :: "int \<Rightarrow> event" where
  "busy_b t = \<lparr>url = ''b/U1.ics'', raw = build_busy_ical t ''U1'' (DateTime 12) (DateTime 13)\<rparr>"

text \<open>A real event of the user on B, and an event whose bytes do not parse.\<close>

definition meeting_b :: event where
  "meeting_b = \<lparr>url = ''b/R1.ics'', raw = mk_ical ''R1'' 5 ''Meeting'' 15 16\<rparr>"

definition broken_a :: event where
  "broken_a = \<lparr>url = ''a/X.ics'', raw = Garbage\<rparr>"

definition lunch_b :: "int \<Rightarrow> event" where
  "lunch_b lm = \<lparr>url = ''b/U1.ics'', raw = mk_ical ''U1'' lm ''Lunch'' 12 13\<rparr>"


section \<open>Lookup facts\<close>

lemma has_update: "has (AList.update k v d) k' \<longleftrightarrow> k' = k \<or> has d k'"
  by (simp add: has_def update_conv')

section \<open>FULL mode implements its decision table\<close>

lemma full_iter_table:
  "full_iter P A B uid (cs, n) =
     (cs @ fst (full_table (map_of P) (map_of A) (map_of B) uid),
      case snd (full_table (map_of P) (map_of A) (map_of B) uid) of
        None \<Rightarrow> n | Some t \<Rightarrow> AList.update uid t n)"
  by (auto simp: full_iter_def full_table_def has_def item_def Let_def dom_def)

lemma foldl_full_calls:
  "fst (foldl (\<lambda>st uid. full_iter P A B uid st) (cs, n) us) =
     cs @ concat (map (\<lambda>uid. fst (full_table (map_of P) (map_of A) (map_of B) uid)) us)"
  by (induction us arbitrary: cs n) (simp_all add: full_iter_table)

lemma foldl_full_state:
  "distinct us \<Longrightarrow>
   map_of (snd (foldl (\<lambda>st uid. full_iter P A B uid st) (cs, n) us)) uid =
     (if uid \<in> set us then
        (case snd (full_table (map_of P) (map_of A) (map_of B) uid) of
           None \<Rightarrow> map_of n uid | Some t \<Rightarrow> Some t)
      else map_of n uid)"
  by (induction us arbitrary: cs n)
     (auto simp: full_iter_table update_conv' split: option.splits)

lemma foldl_full_distinct:
  "distinct (keys n) \<Longrightarrow>
   distinct (keys (snd (foldl (\<lambda>st uid. full_iter P A B uid st) (cs, n) us)))"
  by (induction us arbitrary: cs n)
     (auto simp: full_iter_table keys_def distinct_update split: option.splits)

lemma full_table_outside:
  "uid \<notin> dom P \<Longrightarrow> uid \<notin> dom A \<Longrightarrow> uid \<notin> dom B \<Longrightarrow> full_table P A B uid = ([], None)"
  by (simp add: full_table_def)

lemma set_full_all_uids:
  "set (full_all_uids P A B) = dom (map_of P) \<union> dom (map_of A) \<union> dom (map_of B)"
  by (auto simp: full_all_uids_def keys_def dom_map_of_conv_image_fst)

text \<open>
  Claim C2.  When the state file loads to \<open>P\<close> and the metadata of the two views builds to
  \<open>A\<close> and \<open>B\<close>, \<open>sync_caldav_caldav\<close> issues, uid by uid over
  \<open>keys(P) \<union> keys(A) \<union> keys(B)\<close>, exactly the calls of the decision table, and the state it
  persists holds for every uid exactly the entry of the table (none where the table says
  "omit").
\<close>

theorem full_decision_table:
  assumes "load_full f = Inr P"
    and "build_meta evts_a [] = Inr A"
    and "build_meta evts_b [] = Inr B"
  shows "\<exists>N. sync_caldav_caldav f (Some evts_a) (Some evts_b) =
            (concat (map (\<lambda>uid. fst (full_table (map_of P) (map_of A) (map_of B) uid))
                       (full_all_uids P A B)),
             Inr (Parsed (JDict (dump_entries N)))) \<and>
          set (full_all_uids P A B) = dom (map_of P) \<union> dom (map_of A) \<union> dom (map_of B) \<and>
          distinct (full_all_uids P A B) \<and>
          distinct (keys N) \<and>
          (\<forall>uid. map_of N uid = snd (full_table (map_of P) (map_of A) (map_of B) uid))"
proof -
  let ?r = "full_reconcile P A B"
  have d: "distinct (full_all_uids P A B)"
    by (simp add: full_all_uids_def)
  have c: "fst ?r = concat (map (\<lambda>uid. fst (full_table (map_of P) (map_of A) (map_of B) uid))
                             (full_all_uids P A B))"
    by (simp add: full_reconcile_def foldl_full_calls)
  have k: "distinct (keys (snd ?r))"
    unfolding full_reconcile_def by (rule foldl_full_distinct) (simp add: keys_def)
  have m: "map_of (snd ?r) uid = snd (full_table (map_of P) (map_of A) (map_of B) uid)" for uid
  proof (cases "uid \<in> set (full_all_uids P A B)")
    case True
    then show ?thesis
      using d by (simp add: full_reconcile_def foldl_full_state split: option.splits)
  next
    case False
    then have "full_table (map_of P) (map_of A) (map_of B) uid = ([], None)"
      by (intro full_table_outside) (auto simp: set_full_all_uids)
    with False d show ?thesis
      by (simp add: full_reconcile_def foldl_full_state)
  qed
  have "sync_caldav_caldav f (Some evts_a) (Some evts_b) =
          (fst ?r, Inr (Parsed (JDict (dump_entries (snd ?r)))))"
    using assms by (simp add: sync_caldav_caldav_def Let_def)
  with c k m d set_full_all_uids [of P A B] show ?thesis
    by auto
qed

text \<open>
  Scenario S2 (A at 10, B at 11, P holds the uid): the hypotheses hold and the run is the
  one the table gives, an update of A with B's bytes and the entry 11.
\<close>

theorem full_decision_table_witness:
  "load_full (Parsed (JDict [(''U1'', JTime 10)])) = Inr [(''U1'', 10)] \<and>
   build_meta [lunch_a] [] = Inr [(''U1'', 10, lunch_a)] \<and>
   build_meta [lunch_b 11] [] = Inr [(''U1'', 11, lunch_b 11)] \<and>
   sync_caldav_caldav (Parsed (JDict [(''U1'', JTime 10)])) (Some [lunch_a]) (Some [lunch_b 11]) =
     ([update_event client_a ''a/U1.ics'' (raw (lunch_b 11))],
      Inr (Parsed (JDict [(''U1'', JTime 11)])))"
proof -
  have h1: "load_full (Parsed (JDict [(''U1'', JTime 10)])) = Inr [(''U1'', 10)]"
    by code_simp
  have h2: "build_meta [lunch_a] [] = Inr [(''U1'', 10, lunch_a)]"
    by code_simp
  have h3: "build_meta [lunch_b 11] [] = Inr [(''U1'', 11, lunch_b 11)]"
    by code_simp
  from full_decision_table [OF h1 h2 h3] obtain N where
    r: "sync_caldav_caldav (Parsed (JDict [(''U1'', JTime 10)])) (Some [lunch_a]) (Some [lunch_b 11]) =
          (concat (map (\<lambda>uid. fst (full_table (map_of [(''U1'', 10)])
                     (map_of [(''U1'', 10, lunch_a)]) (map_of [(''U1'', 11, lunch_b 11)]) uid))
                  (full_all_uids [(''U1'', 10)] [(''U1'', 10, lunch_a)] [(''U1'', 11, lunch_b 11)])),
           Inr (Parsed (JDict (dump_entries N))))"
    by blast
  have "sync_caldav_caldav (Parsed (JDict [(''U1'', JTime 10)])) (Some [lunch_a]) (Some [lunch_b 11]) =
     ([update_event client_a ''a/U1.ics'' (raw (lunch_b 11))],
      Inr (Parsed (JDict [(''U1'', JTime 11)])))"
    by code_simp
  with h1 h2 h3 r show ?thesis
    by simp
qed

section \<open>Loading the state file\<close>

text \<open>
  Claim C6.  The claim holds for \<open>sync_caldav_full_oneway\<close> only in part, and fails for
  the other two modes.  A state file that \<open>json.load\<close> rejects ends a FULL run and a BUSY
  run with the decoder's exception; a document carrying the tag of another mode
  (\<open>{"__mode": "full_oneway"}\<close>, or a BUSY document) ends a FULL run with \<open>ValueError\<close> or
  \<open>TypeError\<close>; and the FULL_ONEWAY loader keeps the entries read before a malformed one
  instead of returning the empty state.
\<close>

theorem load_state_not_guarded:
  "sync_caldav_caldav Malformed (Some evts_a) (Some evts_b) = ([], Inl JSONDecodeError) \<and>
   sync_caldav_caldav (Parsed (JDict [(''__mode'', JStr ''full_oneway'')])) (Some evts_a) (Some evts_b) =
     ([], Inl ValueError) \<and>
   sync_caldav_caldav (Parsed (dump_busy st)) (Some evts_a) (Some evts_b) = ([], Inl TypeError) \<and>
   sync_caldav_busy Malformed (Some src_events) (Some tgt_events) now put_error =
     ([], Inl JSONDecodeError) \<and>
   load_oneway (Parsed (JDict [(''__mode'', JStr ''full_oneway''), (''U1'', JTime 10),
                                (''U2'', JStr ''yesterday'')])) = [(''U1'', 10)]"
  by (simp add: sync_caldav_caldav_def load_full_def fromisoformat_def sync_caldav_busy_def
      load_busy_def dump_busy_def load_oneway_def)


section \<open>A codec error ends the run\<close>

lemma build_meta_fails:
  "e \<in> set evts \<Longrightarrow> parse_ical_metadata (raw e) = Inl err \<Longrightarrow> \<exists>err'. build_meta evts acc = Inl err'"
  by (induction evts arbitrary: acc) (auto split: sum.splits)

lemma build_src_meta_fails:
  "e \<in> set evts \<Longrightarrow> parse_ical_metadata (raw e) = Inl err \<Longrightarrow> \<exists>err'. build_src_meta evts acc = Inl err'"
  by (induction evts arbitrary: acc) (auto split: sum.splits)

lemma build_tgt_meta_fails:
  "e \<in> set evts \<Longrightarrow> parse_ical_metadata (raw e) = Inl err \<Longrightarrow> \<exists>err'. build_tgt_meta evts acc = Inl err'"
proof (induction evts arbitrary: acc)
  case Nil
  then show ?case by simp
next
  case (Cons x evts)
  obtain rm bm ru where acc: "acc = (rm, bm, ru)" by (cases acc) auto
  show ?case
  proof (cases "parse_ical_metadata (raw x)")
    case (Inl a)
    then show ?thesis by (simp add: acc)
  next
    case (Inr p)
    with Cons.prems have "e \<in> set evts" by auto
    from Cons.IH [OF this Cons.prems(2)] Inr show ?thesis
      by (auto simp: acc split: sum.splits prod.splits)
  qed
qed

text \<open>
  Claim C8, as the code has it.  No sync function catches the exception of
  \<open>_parse_ical_metadata\<close>: when the bytes of one fetched event of either view yield no UID
  and timestamp, a FULL run and a BUSY run end with an exception before any backend call,
  and no state is written.
\<close>

theorem codec_error_aborts_run:
  assumes "e \<in> set evts_a \<union> set evts_b"
    and "parse_ical_metadata (raw e) = Inl err"
  shows "(\<exists>err'. sync_caldav_caldav f (Some evts_a) (Some evts_b) = ([], Inl err')) \<and>
         (\<exists>err'. sync_caldav_busy f (Some evts_a) (Some evts_b) now put_error = ([], Inl err'))"
proof -
  from assms have "(\<exists>err'. build_meta evts_a [] = Inl err') \<or> (\<exists>err'. build_meta evts_b [] = Inl err')"
    using build_meta_fails by blast
  then have 1: "\<exists>err'. sync_caldav_caldav f (Some evts_a) (Some evts_b) = ([], Inl err')"
    by (auto simp: sync_caldav_caldav_def split: sum.splits)
  from assms have "(\<exists>err'. build_src_meta evts_a [] = Inl err') \<or>
                   (\<exists>err'. build_tgt_meta evts_b ([], [], []) = Inl err')"
    using build_src_meta_fails build_tgt_meta_fails by blast
  then have 2: "\<exists>err'. sync_caldav_busy f (Some evts_a) (Some evts_b) now put_error = ([], Inl err')"
    by (auto simp: sync_caldav_busy_def split: sum.splits)
  from 1 2 show ?thesis by simp
qed

text \<open>A source view with "Lunch" and an event whose bytes do not parse.\<close>

theorem codec_error_aborts_run_witness:
  "broken_a \<in> set [lunch_a, broken_a] \<union> set [] \<and>
   parse_ical_metadata (raw broken_a) = Inl ValueError \<and>
   (\<exists>err'. sync_caldav_caldav Missing (Some [lunch_a, broken_a]) (Some []) = ([], Inl err')) \<and>
   (\<exists>err'. sync_caldav_busy Missing (Some [lunch_a, broken_a]) (Some []) (\<lambda>uid. 20) (\<lambda>uid. False) = ([], Inl err'))"
proof -
  have h1: "broken_a \<in> set [lunch_a, broken_a] \<union> set []" by simp
  have h2: "parse_ical_metadata (raw broken_a) = Inl ValueError"
    by (simp add: broken_a_def parse_ical_metadata_def)
  from codec_error_aborts_run [OF h1 h2] h1 h2 show ?thesis by blast
qed

text \<open>
  Claim C8 as stated fails: with "Lunch" and an unparsable event on A and nothing on B, the
  run does not go on to create "Lunch" on B; it raises \<open>ValueError\<close> and issues no call.
\<close>

theorem codec_error_counterexample:
  "sync_caldav_caldav Missing (Some [lunch_a, broken_a]) (Some []) = ([], Inl ValueError)"
  by code_simp

section \<open>A second BUSY run is not idle\<close>

text \<open>
  Claim C4 fails in BUSY mode (scenario S4 run twice).  The first run creates the
  placeholder of "Lunch" with DTSTAMP = the clock reading 20 and records the source's
  timestamp 10.  The second run, on the unchanged source and on the target holding exactly
  that placeholder, finds the placeholder newer than the source, issues an \<open>update_event\<close>
  on the source and persists the entry 20 in place of 10.
\<close>

theorem busy_second_run_not_idle:
  "sync_caldav_busy Missing (Some [lunch_a]) (Some []) (\<lambda>uid. 20) (\<lambda>uid. False) =
     ([create_event client_target (raw (busy_b 20))],
      Inr (Parsed (dump_busy \<lparr>synced = [(''U1'', 10)], busy_uids = [''U1''],
                               tombstones = [], real_uids = []\<rparr>))) \<and>
   sync_caldav_busy
     (Parsed (dump_busy \<lparr>synced = [(''U1'', 10)], busy_uids = [''U1''],
                         tombstones = [], real_uids = []\<rparr>))
     (Some [lunch_a]) (Some [busy_b 20]) (\<lambda>uid. 30) (\<lambda>uid. False) =
     ([update_event client_source ''a/U1.ics'' (raw lunch_a)],
      Inr (Parsed (dump_busy \<lparr>synced = [(''U1'', 20)], busy_uids = [''U1''],
                               tombstones = [], real_uids = []\<rparr>)))"
  by code_simp


section \<open>FULL_ONEWAY deletes only what the previous state holds\<close>

lemma build_meta_sound:
  "build_meta evts acc = Inr meta \<Longrightarrow> map_of meta uid = Some (lm, e) \<Longrightarrow>
   map_of acc uid = Some (lm, e) \<or> (e \<in> set evts \<and> parse_ical_metadata (raw e) = Inr (uid, lm))"
proof (induction evts arbitrary: acc)
  case Nil
  then show ?case by simp
next
  case (Cons x evts)
  from Cons.prems(1) obtain u t where p: "parse_ical_metadata (raw x) = Inr (u, t)"
    and b: "build_meta evts (AList.update u (t, x) acc) = Inr meta"
    by (auto split: sum.splits)
  from Cons.IH [OF b Cons.prems(2)] p show ?case
    by (auto simp: update_conv' split: if_splits)
qed

lemma oneway_iter_calls:
  "c \<in> set (fst (oneway_iter P S T uid (cs, n))) \<Longrightarrow>
   c \<in> set cs \<or>
   (c = delete_event client_target (url (snd (item T uid))) \<and> has P uid \<and> \<not> has S uid \<and> has T uid) \<or>
   (c = create_event client_target (snd (item S uid)) \<and> has S uid \<and> \<not> has T uid) \<or>
   (c = update_event client_target (url (snd (item T uid))) (snd (item S uid)) \<and> has S uid \<and> has T uid)"
  by (auto simp: oneway_iter_def Let_def split: if_splits)

lemma oneway_iter_state:
  "has (snd (oneway_iter P S T uid (cs, n))) k \<Longrightarrow> has n k \<or> (k = uid \<and> has S uid)"
  by (auto simp: oneway_iter_def Let_def has_update split: if_splits)

lemma oneway_foldl_calls:
  "c \<in> set (fst (foldl (\<lambda>st uid. oneway_iter P S T uid st) (cs, n) us)) \<Longrightarrow>
   c \<in> set cs \<or> (\<exists>uid.
   (c = delete_event client_target (url (snd (item T uid))) \<and> has P uid \<and> \<not> has S uid \<and> has T uid) \<or>
   (c = create_event client_target (snd (item S uid)) \<and> has S uid \<and> \<not> has T uid) \<or>
   (c = update_event client_target (url (snd (item T uid))) (snd (item S uid)) \<and> has S uid \<and> has T uid))"
proof (induction us arbitrary: cs n)
  case Nil
  then show ?case by simp
next
  case (Cons u us)
  obtain cs1 n1 where s: "oneway_iter P S T u (cs, n) = (cs1, n1)"
    by (cases "oneway_iter P S T u (cs, n)") auto
  from Cons.prems have "c \<in> set (fst (foldl (\<lambda>st uid. oneway_iter P S T uid st) (cs1, n1) us))"
    by (simp add: s)
  from Cons.IH [OF this] show ?case
  proof
    assume "c \<in> set cs1"
    then have "c \<in> set (fst (oneway_iter P S T u (cs, n)))" by (simp add: s)
    from oneway_iter_calls [OF this] show ?thesis by blast
  qed blast
qed

lemma oneway_foldl_state:
  "has (snd (foldl (\<lambda>st uid. oneway_iter P S T uid st) (cs, n) us)) k \<Longrightarrow> has n k \<or> has S k"
proof (induction us arbitrary: cs n)
  case Nil
  then show ?case by simp
next
  case (Cons u us)
  obtain cs1 n1 where s: "oneway_iter P S T u (cs, n) = (cs1, n1)"
    by (cases "oneway_iter P S T u (cs, n)") auto
  from Cons.prems have "has (snd (foldl (\<lambda>st uid. oneway_iter P S T uid st) (cs1, n1) us)) k"
    by (simp add: s)
  from Cons.IH [OF this] have "has n1 k \<or> has S k" .
  moreover have "has n1 k \<Longrightarrow> has n k \<or> has S k"
    using oneway_iter_state [of P S T u cs n k] by (auto simp: s)
  ultimately show ?case by blast
qed

lemma oneway_entries_keys:
  "has (oneway_entries data acc) uid \<Longrightarrow> has acc uid \<or> has data uid"
  by (induction data acc rule: oneway_entries.induct)
     (auto simp: has_def update_conv' split: if_splits sum.splits)

lemma load_oneway_keys:
  assumes "has (load_oneway f) uid"
  shows "\<exists>data. f = Parsed (JDict data) \<and> has data uid"
proof -
  from assms obtain data where f: "f = Parsed (JDict data)"
    and l: "load_oneway f = oneway_entries data []"
    by (auto simp: load_oneway_def has_def split: state_file.splits json.splits if_splits)
  from assms l have "has (oneway_entries data []) uid" by simp
  from oneway_entries_keys [OF this] have "has data uid" by (simp add: has_def)
  with f show ?thesis by blast
qed

lemma has_item: "has d k \<Longrightarrow> map_of d k = Some (item d k)"
  by (auto simp: has_def item_def)

text \<open>
  Claim C5.  In a run of \<open>sync_caldav_full_oneway\<close> whose views parse, every
  \<open>delete_event\<close> goes to the target and concerns the event of a uid that is a key of the
  state file (and of the state loaded from it) and is absent from the source view.  A uid
  present only on the target and absent from the loaded state gets no entry in the next
  state, and, when the target urls are distinct, no delete or update is issued on any
  target event with that uid.
\<close>

theorem oneway_deletes_only_prev:
  assumes src: "build_meta_src src_events [] = Inr meta_src"
    and tgt: "build_meta tgt_events [] = Inr meta_tgt"
  shows "\<exists>cs N. sync_caldav_full_oneway f (Some src_events) (Some tgt_events) =
            (cs, Inr (Parsed (JDict (oneway_to_save N)))) \<and>
          (\<forall>cl u. delete_event cl u \<in> set cs \<longrightarrow>
             cl = client_target \<and>
             (\<exists>uid data e. f = Parsed (JDict data) \<and> has data uid \<and> has (load_oneway f) uid \<and>
                 \<not> has meta_src uid \<and> e \<in> set tgt_events \<and> uid_of (raw e) = Some uid \<and> url e = u)) \<and>
          (\<forall>uid. has meta_tgt uid \<and> \<not> has meta_src uid \<and> \<not> has (load_oneway f) uid \<longrightarrow>
             \<not> has N uid \<and>
             (distinct (map url tgt_events) \<longrightarrow>
              (\<forall>e \<in> set tgt_events. uid_of (raw e) = Some uid \<longrightarrow>
                 delete_event client_target (url e) \<notin> set cs \<and>
                 (\<forall>r. update_event client_target (url e) r \<notin> set cs))))"
proof -
  let ?P = "load_oneway f"
  let ?r = "oneway_reconcile ?P meta_src meta_tgt"
  have run: "sync_caldav_full_oneway f (Some src_events) (Some tgt_events) =
               (fst ?r, Inr (Parsed (JDict (oneway_to_save (snd ?r)))))"
    using src tgt by (simp add: sync_caldav_full_oneway_def Let_def)
  have calls: "\<exists>uid.
      (c = delete_event client_target (url (snd (item meta_tgt uid))) \<and> has ?P uid \<and> \<not> has meta_src uid \<and> has meta_tgt uid) \<or>
      (c = create_event client_target (snd (item meta_src uid)) \<and> has meta_src uid \<and> \<not> has meta_tgt uid) \<or>
      (c = update_event client_target (url (snd (item meta_tgt uid))) (snd (item meta_src uid)) \<and> has meta_src uid \<and> has meta_tgt uid)"
    if "c \<in> set (fst ?r)" for c
    using oneway_foldl_calls [OF that [unfolded oneway_reconcile_def]] by simp
  have ev: "snd (item meta_tgt uid) \<in> set tgt_events \<and> uid_of (raw (snd (item meta_tgt uid))) = Some uid"
    if "has meta_tgt uid" for uid
  proof -
    obtain lm e where i: "item meta_tgt uid = (lm, e)" by (cases "item meta_tgt uid") auto
    with has_item [OF that] have "map_of meta_tgt uid = Some (lm, e)" by simp
    from build_meta_sound [OF tgt this] i show ?thesis by (simp add: uid_of_def)
  qed
  have inj: "e = e'"
    if "distinct (map url tgt_events)" "e \<in> set tgt_events" "e' \<in> set tgt_events" "url e = url e'"
    for e e'
    using that by (auto simp: distinct_map inj_on_def)
  have del: "cl = client_target \<and>
             (\<exists>uid data e. f = Parsed (JDict data) \<and> has data uid \<and> has ?P uid \<and>
                 \<not> has meta_src uid \<and> e \<in> set tgt_events \<and> uid_of (raw e) = Some uid \<and> url e = u)"
    if "delete_event cl u \<in> set (fst ?r)" for cl u
  proof -
    from calls [OF that] obtain uid where
      u: "cl = client_target" "u = url (snd (item meta_tgt uid))" "has ?P uid" "\<not> has meta_src uid" "has meta_tgt uid"
      by auto
    from load_oneway_keys [OF u(3)] obtain data where "f = Parsed (JDict data)" "has data uid" by blast
    with u ev [OF u(5)] show ?thesis by blast
  qed
  have untouched: "\<not> has (snd ?r) uid \<and>
             (distinct (map url tgt_events) \<longrightarrow>
              (\<forall>e \<in> set tgt_events. uid_of (raw e) = Some uid \<longrightarrow>
                 delete_event client_target (url e) \<notin> set (fst ?r) \<and>
                 (\<forall>r. update_event client_target (url e) r \<notin> set (fst ?r))))"
    if h: "has meta_tgt uid" "\<not> has meta_src uid" "\<not> has ?P uid" for uid
  proof (intro conjI ballI impI allI)
    show "\<not> has (snd ?r) uid"
    proof
      assume "has (snd ?r) uid"
      from oneway_foldl_state [OF this [unfolded oneway_reconcile_def]] h show False
        by (simp add: has_def)
    qed
  next
    fix e assume urls: "distinct (map url tgt_events)"
      and e: "e \<in> set tgt_events" "uid_of (raw e) = Some uid"
    show "delete_event client_target (url e) \<notin> set (fst ?r)"
    proof
      assume "delete_event client_target (url e) \<in> set (fst ?r)"
      from calls [OF this] obtain uid' where
        u: "url e = url (snd (item meta_tgt uid'))" "has ?P uid'" "has meta_tgt uid'" by auto
      from ev [OF u(3)] inj [OF urls e(1) _ u(1)] e(2) have "uid' = uid" by auto
      with u h show False by simp
    qed
    fix r
    show "update_event client_target (url e) r \<notin> set (fst ?r)"
    proof
      assume "update_event client_target (url e) r \<in> set (fst ?r)"
      from calls [OF this] obtain uid' where
        u: "url e = url (snd (item meta_tgt uid'))" "has meta_src uid'" "has meta_tgt uid'" by auto
      from ev [OF u(3)] inj [OF urls e(1) _ u(1)] e(2) have "uid' = uid" by auto
      with u h show False by simp
    qed
  qed
  from run del untouched show ?thesis by blast
qed

text \<open>
  The state holds U1; the source is empty; the target holds "Lunch" (U1) and the user's
  "Meeting" (R1).  U1 is deleted from the target, R1 is left alone.
\<close>

theorem oneway_deletes_only_prev_witness:
  "build_meta_src [] [] = Inr [] \<and>
   build_meta [lunch_b 10, meeting_b] [] = Inr [(''U1'', 10, lunch_b 10), (''R1'', 5, meeting_b)] \<and>
   distinct (map url [lunch_b 10, meeting_b]) \<and>
   sync_caldav_full_oneway
     (Parsed (JDict [(''__mode'', JStr ''full_oneway''), (''U1'', JTime 10)]))
     (Some []) (Some [lunch_b 10, meeting_b]) =
     ([delete_event client_target ''b/U1.ics''],
      Inr (Parsed (JDict [(''__mode'', JStr ''full_oneway'')])))"
proof -
  have h1: "build_meta_src [] [] = Inr []"
    by simp
  have h2: "build_meta [lunch_b 10, meeting_b] [] =
              Inr [(''U1'', 10, lunch_b 10), (''R1'', 5, meeting_b)]"
    by code_simp
  have h3: "distinct (map url [lunch_b 10, meeting_b])"
    by (simp add: lunch_b_def meeting_b_def)
  from oneway_deletes_only_prev [OF h1 h2,
      of "Parsed (JDict [(''__mode'', JStr ''full_oneway''), (''U1'', JTime 10)])"]
  obtain cs N where
    "sync_caldav_full_oneway
       (Parsed (JDict [(''__mode'', JStr ''full_oneway''), (''U1'', JTime 10)]))
       (Some []) (Some [lunch_b 10, meeting_b]) = (cs, Inr (Parsed (JDict (oneway_to_save N))))"
    by blast
  moreover have "sync_caldav_full_oneway
       (Parsed (JDict [(''__mode'', JStr ''full_oneway''), (''U1'', JTime 10)]))
       (Some []) (Some [lunch_b 10, meeting_b]) =
     ([delete_event client_target ''b/U1.ics''],
      Inr (Parsed (JDict [(''__mode'', JStr ''full_oneway'')])))"
    by code_simp
  ultimately show ?thesis
    using h1 h2 h3 by simp
qed


section \<open>BUSY mode: the metadata of the two views\<close>

lemma build_src_meta_sound:
  "build_src_meta evts acc = Inr meta \<Longrightarrow> map_of meta uid = Some (e, r, lm) \<Longrightarrow>
   map_of acc uid = Some (e, r, lm) \<or>
   (e \<in> set evts \<and> r = raw e \<and> parse_ical_metadata (raw e) = Inr (uid, lm))"
proof (induction evts arbitrary: acc)
  case Nil
  then show ?case by simp
next
  case (Cons x evts)
  from Cons.prems(1) obtain u t where p: "parse_ical_metadata (raw x) = Inr (u, t)"
    and b: "build_src_meta evts (AList.update u (x, raw x, t) acc) = Inr meta"
    by (auto split: sum.splits)
  from Cons.IH [OF b Cons.prems(2)] p show ?case
    by (auto simp: update_conv' split: if_splits)
qed

lemma build_src_meta_mono:
  "build_src_meta evts acc = Inr meta \<Longrightarrow> has acc uid \<Longrightarrow> has meta uid"
proof (induction evts arbitrary: acc)
  case Nil
  then show ?case by simp
next
  case (Cons x evts)
  from Cons.prems(1) obtain u t where
    b: "build_src_meta evts (AList.update u (x, raw x, t) acc) = Inr meta"
    by (auto split: sum.splits)
  from Cons.prems(2) have "has (AList.update u (x, raw x, t) acc) uid"
    by (simp add: has_update)
  from Cons.IH [OF b this] show ?case .
qed

lemma build_src_meta_complete:
  "build_src_meta evts acc = Inr meta \<Longrightarrow> e \<in> set evts \<Longrightarrow>
   \<exists>uid lm. parse_ical_metadata (raw e) = Inr (uid, lm) \<and> has meta uid"
proof (induction evts arbitrary: acc)
  case Nil
  then show ?case by simp
next
  case (Cons x evts)
  from Cons.prems(1) obtain u t where p: "parse_ical_metadata (raw x) = Inr (u, t)"
    and b: "build_src_meta evts (AList.update u (x, raw x, t) acc) = Inr meta"
    by (auto split: sum.splits)
  show ?case
  proof (cases "e = x")
    case True
    have "has (AList.update u (x, raw x, t) acc) u" by (simp add: has_update)
    from build_src_meta_mono [OF b this] p True show ?thesis by blast
  next
    case False
    with Cons.prems(2) have "e \<in> set evts" by simp
    from Cons.IH [OF b this] show ?thesis .
  qed
qed

lemma build_tgt_meta_Cons:
  assumes "build_tgt_meta (x # evts) (rm, bm, ru) = Inr res"
  obtains u t where "parse_ical_metadata (raw x) = Inr (u, t)" "\<not> is_busy_event x"
      "build_tgt_meta evts (AList.update u (x, raw x, t) rm, bm, List.insert u ru) = Inr res"
  | u t where "parse_ical_metadata (raw x) = Inr (u, t)" "is_busy_event x"
      "build_tgt_meta evts (rm, AList.update u (x, raw x, t) bm, ru) = Inr res"
  using assms by (auto simp: is_busy_event_def split: sum.splits if_splits)

lemma build_tgt_meta_busy_sound:
  "build_tgt_meta evts (rm0, bm0, ru0) = Inr (rm, bm, ru) \<Longrightarrow> map_of bm uid = Some (e, r, lm) \<Longrightarrow>
   map_of bm0 uid = Some (e, r, lm) \<or>
   (e \<in> set evts \<and> r = raw e \<and> parse_ical_metadata (raw e) = Inr (uid, lm) \<and> is_busy_event e)"
proof (induction evts arbitrary: rm0 bm0 ru0)
  case Nil
  then show ?case by simp
next
  case (Cons x evts)
  from Cons.prems(1) show ?case
  proof (cases rule: build_tgt_meta_Cons)
    case (1 u t)
    from Cons.IH [OF 1(3) Cons.prems(2)] show ?thesis by auto
  next
    case (2 u t)
    from Cons.IH [OF 2(3) Cons.prems(2)] 2(1,2) show ?thesis
      by (auto simp: update_conv' split: if_splits)
  qed
qed

lemma build_tgt_meta_real_sound:
  "build_tgt_meta evts (rm0, bm0, ru0) = Inr (rm, bm, ru) \<Longrightarrow> map_of rm uid = Some (e, r, lm) \<Longrightarrow>
   map_of rm0 uid = Some (e, r, lm) \<or>
   (e \<in> set evts \<and> r = raw e \<and> parse_ical_metadata (raw e) = Inr (uid, lm) \<and> \<not> is_busy_event e)"
proof (induction evts arbitrary: rm0 bm0 ru0)
  case Nil
  then show ?case by simp
next
  case (Cons x evts)
  from Cons.prems(1) show ?case
  proof (cases rule: build_tgt_meta_Cons)
    case (1 u t)
    from Cons.IH [OF 1(3) Cons.prems(2)] 1(1,2) show ?thesis
      by (auto simp: update_conv' split: if_splits)
  next
    case (2 u t)
    from Cons.IH [OF 2(3) Cons.prems(2)] show ?thesis by auto
  qed
qed

lemma build_tgt_meta_mono:
  "build_tgt_meta evts (rm0, bm0, ru0) = Inr (rm, bm, ru) \<Longrightarrow>
   (has bm0 uid \<longrightarrow> has bm uid) \<and> (uid \<in> set ru0 \<longrightarrow> uid \<in> set ru)"
proof (induction evts arbitrary: rm0 bm0 ru0)
  case Nil
  then show ?case by simp
next
  case (Cons x evts)
  from Cons.prems(1) show ?case
  proof (cases rule: build_tgt_meta_Cons)
    case (1 u t)
    from Cons.IH [OF 1(3)] show ?thesis by auto
  next
    case (2 u t)
    from Cons.IH [OF 2(3)] show ?thesis by (auto simp: has_update)
  qed
qed

lemma build_tgt_meta_complete:
  "build_tgt_meta evts (rm0, bm0, ru0) = Inr (rm, bm, ru) \<Longrightarrow> e \<in> set evts \<Longrightarrow>
   \<exists>uid lm. parse_ical_metadata (raw e) = Inr (uid, lm) \<and>
     (if is_busy_event e then has bm uid else uid \<in> set ru)"
proof (induction evts arbitrary: rm0 bm0 ru0)
  case Nil
  then show ?case by simp
next
  case (Cons x evts)
  from Cons.prems(1) show ?case
  proof (cases rule: build_tgt_meta_Cons)
    case (1 u t)
    show ?thesis
    proof (cases "e = x")
      case True
      from build_tgt_meta_mono [OF 1(3), of u] 1(1,2) True show ?thesis by auto
    next
      case False
      with Cons.prems(2) have "e \<in> set evts" by simp
      from Cons.IH [OF 1(3) this] show ?thesis .
    qed
  next
    case (2 u t)
    show ?thesis
    proof (cases "e = x")
      case True
      from build_tgt_meta_mono [OF 2(3), of u] 2(1,2) True show ?thesis by (auto simp: has_update)
    next
      case False
      with Cons.prems(2) have "e \<in> set evts" by simp
      from Cons.IH [OF 2(3) this] show ?thesis .
    qed
  qed
qed

lemma fallback_none:
  "(\<forall>e \<in> set evts. \<exists>u lm. parse_ical_metadata (raw e) = Inr (u, lm) \<and> u \<noteq> uid) \<Longrightarrow>
   fallback evts uid busy_ical = ([], None)"
  by (induction evts) auto

lemma fallback_absent:
  assumes "build_tgt_meta tgt_events ([], [], []) = Inr (rm, bm, ru)"
    and "uid \<notin> set ru" and "\<not> has bm uid"
  shows "fallback tgt_events uid busy_ical = ([], None)"
    and "\<forall>e \<in> set tgt_events. uid_of (raw e) \<noteq> Some uid"
proof -
  have *: "\<exists>u lm. parse_ical_metadata (raw e) = Inr (u, lm) \<and> u \<noteq> uid" if "e \<in> set tgt_events" for e
    using build_tgt_meta_complete [OF assms(1) that] assms(2,3) by (auto split: if_splits)
  then show "fallback tgt_events uid busy_ical = ([], None)"
    by (intro fallback_none) blast
  from * show "\<forall>e \<in> set tgt_events. uid_of (raw e) \<noteq> Some uid"
    by (fastforce simp: uid_of_def)
qed

lemma uid_of_build_busy_ical: "uid_of (build_busy_ical t uid ds de) = Some uid"
  by (simp add: uid_of_def build_busy_ical_def parse_ical_metadata_def first_vevent_def)

lemma deleted_on_a_foldl:
  "foldl (deleted_on_a_iter rm) (cs, t) us = (cs', t') \<Longrightarrow>
   set t' = set t \<union> set us \<and>
   set cs' = set cs \<union> {delete_event client_target (url (fst (item rm uid))) | uid. uid \<in> set us \<and> has rm uid}"
proof (induction us arbitrary: cs t)
  case Nil
  then show ?case by auto
next
  case (Cons u us)
  obtain cs1 t1 where s: "deleted_on_a_iter rm (cs, t) u = (cs1, t1)"
    by (cases "deleted_on_a_iter rm (cs, t) u") auto
  then have 1: "set t1 = insert u (set t)"
    and 2: "set cs1 = set cs \<union> {delete_event client_target (url (fst (item rm u))) | uid. uid = u \<and> has rm u}"
    by (auto simp: deleted_on_a_iter_def Let_def split: if_splits)
  from Cons.prems s have "foldl (deleted_on_a_iter rm) (cs1, t1) us = (cs', t')" by simp
  from Cons.IH [OF this] 1 2 show ?case by auto
qed

lemma deleted_on_b_foldl:
  "foldl deleted_on_b_iter (cs, sm, t) us = (cs', sm', t') \<Longrightarrow>
   set t' = set t \<union> set us \<and>
   (\<forall>k. map_of sm' k = (if k \<in> set us then None else map_of sm k)) \<and>
   set cs' = set cs \<union> {delete_event client_source (url (fst (item sm uid))) | uid. uid \<in> set us \<and> has sm uid}"
proof (induction us arbitrary: cs sm t)
  case Nil
  then show ?case by auto
next
  case (Cons u us)
  obtain cs1 sm1 t1 where s: "deleted_on_b_iter (cs, sm, t) u = (cs1, sm1, t1)"
    by (cases "deleted_on_b_iter (cs, sm, t) u") auto
  then have 1: "set t1 = insert u (set t)"
    and 2: "set cs1 = set cs \<union> {delete_event client_source (url (fst (item sm u))) | uid. uid = u \<and> has sm u}"
    and 3: "\<And>k. map_of sm1 k = (if k = u then None else map_of sm k)"
  proof -
    show "set t1 = insert u (set t)"
      using s by (auto simp: deleted_on_b_iter_def Let_def split: if_splits)
    show "set cs1 = set cs \<union> {delete_event client_source (url (fst (item sm u))) | uid. uid = u \<and> has sm u}"
      using s by (auto simp: deleted_on_b_iter_def Let_def split: if_splits)
    show "map_of sm1 k = (if k = u then None else map_of sm k)" for k
    proof (cases "has sm u")
      case True
      with s show ?thesis by (auto simp: deleted_on_b_iter_def Let_def delete_conv')
    next
      case False
      then have "map_of sm u = None" by (cases "map_of sm u") (simp_all add: has_def)
      with s False show ?thesis by (auto simp: deleted_on_b_iter_def Let_def)
    qed
  qed
  from 3 have 4: "\<And>k. has sm1 k \<longleftrightarrow> k \<noteq> u \<and> has sm k" and 5: "\<And>k. k \<noteq> u \<Longrightarrow> item sm1 k = item sm k"
    by (auto simp: has_def item_def)
  from Cons.prems s have "foldl deleted_on_b_iter (cs1, sm1, t1) us = (cs', sm', t')" by simp
  from Cons.IH [OF this] have a: "set t' = set t1 \<union> set us"
    and b: "\<And>k. map_of sm' k = (if k \<in> set us then None else map_of sm1 k)"
    and c: "set cs' = set cs1 \<union> {delete_event client_source (url (fst (item sm1 uid))) | uid. uid \<in> set us \<and> has sm1 uid}"
    by auto
  have "{delete_event client_source (url (fst (item sm1 uid))) | uid. uid \<in> set us \<and> has sm1 uid} =
        {delete_event client_source (url (fst (item sm uid))) | uid. uid \<in> set us \<and> uid \<noteq> u \<and> has sm uid}"
    using 4 5 by auto metis+
  with a b c 1 2 3 show ?case by auto
qed

section \<open>BUSY mode: one turn of the loop, the loop, the run\<close>

lemma busy_iter_cases [consumes 1, case_names unchanged delete create create_fail update_tgt update_src same]:
  assumes "busy_iter os sm bm ru tg now pe uid v = (v', r)"
  obtains
    (unchanged) "v' = v"
  | (delete) "has os uid" "\<not> has sm uid" "has bm uid" "uid \<notin> set ru" "r = None"
      "calls v' = calls v @ [delete_event client_target (url (fst (item bm uid)))]"
      "tombs v' = removeAll uid (tombs v)" "new_synced v' = new_synced v" "new_busy v' = new_busy v"
  | (create) ds de cs where "has sm uid" "\<not> has bm uid" "uid \<notin> set ru" "uid \<notin> set (tombs v)" "r = None"
      "if pe uid then fallback tg uid (build_busy_ical (now uid) uid ds de) = (cs, None) else cs = []"
      "calls v' = calls v @ create_event client_target (build_busy_ical (now uid) uid ds de) # cs"
      "tombs v' = tombs v"
      "new_synced v' = AList.update uid (snd (snd (item sm uid))) (new_synced v)"
      "new_busy v' = List.insert uid (new_busy v)"
  | (create_fail) ds de cs err where "has sm uid" "\<not> has bm uid" "uid \<notin> set ru" "uid \<notin> set (tombs v)"
      "r = Some err" "pe uid"
      "fallback tg uid (build_busy_ical (now uid) uid ds de) = (cs, Some err)"
      "calls v' = calls v @ create_event client_target (build_busy_ical (now uid) uid ds de) # cs"
      "tombs v' = tombs v" "new_synced v' = new_synced v" "new_busy v' = new_busy v"
  | (update_tgt) ds de where "has sm uid" "has bm uid" "uid \<notin> set ru" "r = None"
      "calls v' = calls v @ [update_event client_target (url (fst (item bm uid)))
                               (build_busy_ical (now uid) uid ds de)]"
      "tombs v' = tombs v"
      "new_synced v' = AList.update uid (snd (snd (item sm uid))) (new_synced v)"
      "new_busy v' = List.insert uid (new_busy v)"
  | (update_src) updated where "has sm uid" "has bm uid" "uid \<notin> set ru" "r = None"
      "calls v' = calls v @ [update_event client_source (url (fst (item sm uid))) updated]"
      "tombs v' = tombs v"
      "new_synced v' = AList.update uid (snd (snd (item bm uid))) (new_synced v)"
      "new_busy v' = List.insert uid (new_busy v)"
  | (same) "has sm uid" "has bm uid" "uid \<notin> set ru" "r = None"
      "calls v' = calls v" "tombs v' = tombs v"
      "new_synced v' = AList.update uid (snd (snd (item sm uid))) (new_synced v)"
      "new_busy v' = List.insert uid (new_busy v)"
proof (cases "uid \<in> set ru")
  case True
  with assms unchanged show ?thesis by (simp add: busy_iter_def)
next
  case nru: False
  show ?thesis
  proof (cases "has os uid \<and> \<not> has sm uid \<and> has bm uid")
    case True
    with assms nru show ?thesis by (intro delete) (auto simp: busy_iter_def)
  next
    case nd: False
    show ?thesis
    proof (cases "has sm uid")
      case nsm: False
      with assms nru nd unchanged show ?thesis by (auto simp: busy_iter_def)
    next
      case hsm: True
      show ?thesis
      proof (cases "has bm uid")
        case nbm: False
        show ?thesis
        proof (cases "uid \<in> set (tombs v)")
          case True
          with assms nru nd hsm nbm unchanged show ?thesis by (auto simp: busy_iter_def)
        next
          case nt: False
          show ?thesis
          proof (cases "parse_dt_range (fst (snd (item sm uid)))")
            case (Inl err)
            with assms nru nd hsm nbm nt unchanged show ?thesis by (auto simp: busy_iter_def)
          next
            case (Inr p)
            obtain ds de where p: "p = (ds, de)" by (cases p) auto
            show ?thesis
            proof (cases "pe uid")
              case False
              with assms nru nd hsm nbm nt Inr p show ?thesis
                by (intro create [where ds = ds and de = de and cs = "[]"]) (auto simp: busy_iter_def Let_def)
            next
              case True
              obtain cs fr where f: "fallback tg uid (build_busy_ical (now uid) uid ds de) = (cs, fr)"
                by (cases "fallback tg uid (build_busy_ical (now uid) uid ds de)") auto
              show ?thesis
              proof (cases fr)
                case None
                with assms nru nd hsm nbm nt Inr p True f show ?thesis
                  by (intro create [where ds = ds and de = de and cs = cs]) (auto simp: busy_iter_def Let_def)
              next
                case (Some err)
                with assms nru nd hsm nbm nt Inr p True f show ?thesis
                  by (intro create_fail [where ds = ds and de = de and cs = cs and err = err]) (auto simp: busy_iter_def Let_def)
              qed
            qed
          qed
        qed
      next
        case hbm: True
        consider (gt) "snd (snd (item sm uid)) > snd (snd (item bm uid))"
          | (lt) "snd (snd (item bm uid)) > snd (snd (item sm uid))"
          | (eq) "snd (snd (item sm uid)) = snd (snd (item bm uid))"
          by linarith
        then show ?thesis
        proof cases
          case gt
          show ?thesis
          proof (cases "parse_dt_range (fst (snd (item sm uid)))")
            case (Inl err)
            with assms nru nd hsm hbm gt unchanged show ?thesis by (auto simp: busy_iter_def Let_def)
          next
            case (Inr p)
            obtain ds de where p: "p = (ds, de)" by (cases p) auto
            with assms nru nd hsm hbm gt Inr show ?thesis
              by (intro update_tgt [where ds = ds and de = de]) (auto simp: busy_iter_def Let_def)
          qed
        next
          case lt
          show ?thesis
          proof (cases "parse_dt_range (fst (snd (item bm uid)))")
            case (Inl err)
            with assms nru nd hsm hbm lt unchanged show ?thesis by (auto simp: busy_iter_def Let_def)
          next
            case (Inr p)
            obtain ds de where p: "p = (ds, de)" by (cases p) auto
            show ?thesis
            proof (cases "update_src_ical (fst (snd (item sm uid))) ds de")
              case (Inl err)
              with assms nru nd hsm hbm lt Inr p unchanged show ?thesis by (auto simp: busy_iter_def Let_def)
            next
              case upd: (Inr updated)
              with assms nru nd hsm hbm lt Inr p show ?thesis
                by (intro update_src [where updated = updated]) (auto simp: busy_iter_def Let_def)
            qed
          qed
        next
          case eq
          with assms nru nd hsm hbm show ?thesis
            by (intro same) (auto simp: busy_iter_def Let_def)
        qed
      qed
    qed
  qed
qed

lemma busy_loop_induct:
  assumes "busy_loop os sm bm ru tg now pe us v = (v', r)"
    and "I us v"
    and "\<And>uid rest w w' r'. I (uid # rest) w \<Longrightarrow>
           busy_iter os sm bm ru tg now pe uid w = (w', r') \<Longrightarrow> I rest w'"
  shows "\<exists>rest. I rest v'"
  using assms(1,2)
proof (induction us arbitrary: v)
  case Nil
  then show ?case by auto
next
  case (Cons uid us)
  obtain w r' where s: "busy_iter os sm bm ru tg now pe uid v = (w, r')"
    by (cases "busy_iter os sm bm ru tg now pe uid v") auto
  from assms(3) [OF Cons.prems(2) s] have i: "I us w" .
  show ?case
  proof (cases r')
    case None
    with Cons.prems(1) s have "busy_loop os sm bm ru tg now pe us w = (v', r)" by simp
    from Cons.IH [OF this i] show ?thesis .
  next
    case (Some err)
    with Cons.prems(1) s have "v' = w" by simp
    with i show ?thesis by blast
  qed
qed

lemma busy_passes_cases:
  assumes "busy_passes old sm rm bm ru tg now pe = (v, r)"
  obtains cs0 sm' t0 us where
    "set t0 = set (tombstones old) \<union> {uid \<in> set (real_uids old). \<not> has sm uid} \<union>
              {uid \<in> set (real_uids old). uid \<notin> set ru} \<union>
              {uid \<in> set (busy_uids old). \<not> has bm uid}"
    "\<forall>k. map_of sm' k =
        (if k \<in> {uid \<in> set (real_uids old). uid \<notin> set ru} \<union>
                 {uid \<in> set (busy_uids old). \<not> has bm uid}
         then None else map_of sm k)"
    "set cs0 =
       {delete_event client_target (url (fst (item rm uid))) | uid.
          uid \<in> set (real_uids old) \<and> \<not> has sm uid \<and> has rm uid} \<union>
       {delete_event client_source (url (fst (item sm uid))) | uid.
          (uid \<in> set (real_uids old) \<and> uid \<notin> set ru \<or>
           uid \<in> set (busy_uids old) \<and> \<not> has bm uid) \<and> has sm uid}"
    "distinct us"
    "busy_loop (synced old) sm' bm ru tg now pe us
       \<lparr>calls = cs0, tombs = t0, new_synced = [], new_busy = []\<rparr> = (v, r)"
proof -
  let ?da = "filter (\<lambda>uid. \<not> has sm uid) (real_uids old)"
  let ?dr = "filter (\<lambda>uid. uid \<notin> set ru) (real_uids old)"
  let ?db = "filter (\<lambda>uid. \<not> has bm uid) (busy_uids old)"
  obtain c1 t1 where p1: "foldl (deleted_on_a_iter rm) ([], tombstones old) ?da = (c1, t1)"
    by (cases "foldl (deleted_on_a_iter rm) ([], tombstones old) ?da") auto
  obtain c2 s2 t2 where p2: "foldl deleted_on_b_iter (c1, sm, t1) ?dr = (c2, s2, t2)"
    by (cases "foldl deleted_on_b_iter (c1, sm, t1) ?dr") auto
  obtain c3 s3 t3 where p3: "foldl deleted_on_b_iter (c2, s2, t2) ?db = (c3, s3, t3)"
    by (cases "foldl deleted_on_b_iter (c2, s2, t2) ?db") auto
  let ?us = "sort (remdups (keys (synced old) @ keys s3 @ keys bm))"
  from deleted_on_a_foldl [OF p1] have a1: "set t1 = set (tombstones old) \<union> set ?da"
    and a2: "set c1 = {delete_event client_target (url (fst (item rm uid))) | uid. uid \<in> set ?da \<and> has rm uid}"
    by auto
  from deleted_on_b_foldl [OF p2] have b1: "set t2 = set t1 \<union> set ?dr"
    and b2: "\<And>k. map_of s2 k = (if k \<in> set ?dr then None else map_of sm k)"
    and b3: "set c2 = set c1 \<union> {delete_event client_source (url (fst (item sm uid))) | uid. uid \<in> set ?dr \<and> has sm uid}"
    by auto
  from deleted_on_b_foldl [OF p3] have c1: "set t3 = set t2 \<union> set ?db"
    and c2: "\<And>k. map_of s3 k = (if k \<in> set ?db then None else map_of s2 k)"
    and c3: "set c3 = set c2 \<union> {delete_event client_source (url (fst (item s2 uid))) | uid. uid \<in> set ?db \<and> has s2 uid}"
    by auto
  from b2 have h2: "\<And>k. has s2 k \<longleftrightarrow> k \<notin> set ?dr \<and> has sm k"
    and i2: "\<And>k. has s2 k \<Longrightarrow> item s2 k = item sm k"
    by (auto simp: has_def item_def)
  have d3: "{delete_event client_source (url (fst (item s2 uid))) | uid. uid \<in> set ?db \<and> has s2 uid} =
            {delete_event client_source (url (fst (item sm uid))) | uid. uid \<in> set ?db \<and> uid \<notin> set ?dr \<and> has sm uid}"
    using h2 i2 by auto metis+
  have t: "set t3 = set (tombstones old) \<union> {uid \<in> set (real_uids old). \<not> has sm uid} \<union>
              {uid \<in> set (real_uids old). uid \<notin> set ru} \<union>
              {uid \<in> set (busy_uids old). \<not> has bm uid}"
    using a1 b1 c1 by auto
  have m: "\<forall>k. map_of s3 k =
        (if k \<in> {uid \<in> set (real_uids old). uid \<notin> set ru} \<union>
                 {uid \<in> set (busy_uids old). \<not> has bm uid}
         then None else map_of sm k)"
    using b2 c2 by auto
  have c: "set c3 =
       {delete_event client_target (url (fst (item rm uid))) | uid.
          uid \<in> set (real_uids old) \<and> \<not> has sm uid \<and> has rm uid} \<union>
       {delete_event client_source (url (fst (item sm uid))) | uid.
          (uid \<in> set (real_uids old) \<and> uid \<notin> set ru \<or>
           uid \<in> set (busy_uids old) \<and> \<not> has bm uid) \<and> has sm uid}"
    unfolding c3 d3 b3 a2 by auto
  have d: "distinct ?us" by simp
  have l: "busy_loop (synced old) s3 bm ru tg now pe ?us
       \<lparr>calls = c3, tombs = t3, new_synced = [], new_busy = []\<rparr> = (v, r)"
    using assms p1 p2 p3 by (simp add: busy_passes_def Let_def)
  from that [OF t m c d l] show thesis .
qed

lemma sync_caldav_busy_cases:
  assumes "sync_caldav_busy f cal_src cal_tgt now pe = (cs, res)"
  obtains (abort) err where "cs = []" "res = Inl err"
  | (run) old src_events tgt_events sm rm bm ru v r where
      "cal_src = Some src_events" "cal_tgt = Some tgt_events"
      "load_busy f = Inr old" "build_src_meta src_events [] = Inr sm"
      "build_tgt_meta tgt_events ([], [], []) = Inr (rm, bm, ru)"
      "busy_passes old sm rm bm ru tgt_events now pe = (v, r)"
      "cs = calls v"
      "res = (case r of Some err \<Rightarrow> Inl err
              | None \<Rightarrow> Inr (Parsed (dump_busy \<lparr>synced = new_synced v, busy_uids = new_busy v,
                                                 tombstones = tombs v, real_uids = ru\<rparr>)))"
proof (cases "load_busy f")
  case (Inl err)
  with assms abort show ?thesis by (auto simp: sync_caldav_busy_def)
next
  case old: (Inr old)
  show ?thesis
  proof (cases cal_src)
    case None
    with assms old abort show ?thesis by (auto simp: sync_caldav_busy_def)
  next
    case src: (Some src_events)
    show ?thesis
    proof (cases cal_tgt)
      case None
      with assms old src abort show ?thesis by (auto simp: sync_caldav_busy_def)
    next
      case tgt: (Some tgt_events)
      show ?thesis
      proof (cases "build_src_meta src_events []")
        case (Inl err)
        with assms old src tgt abort show ?thesis by (auto simp: sync_caldav_busy_def)
      next
        case sm: (Inr sm)
        show ?thesis
        proof (cases "build_tgt_meta tgt_events ([], [], [])")
          case (Inl err)
          with assms old src tgt sm abort show ?thesis by (auto simp: sync_caldav_busy_def)
        next
          case (Inr res')
          obtain rm bm ru where res': "res' = (rm, bm, ru)" by (cases res') auto
          obtain v r where p: "busy_passes old sm rm bm ru tgt_events now pe = (v, r)"
            by (cases "busy_passes old sm rm bm ru tgt_events now pe") auto
          from assms old src tgt sm Inr res' p have "cs = calls v"
            and "res = (case r of Some err \<Rightarrow> Inl err
              | None \<Rightarrow> Inr (Parsed (dump_busy \<lparr>synced = new_synced v, busy_uids = new_busy v,
                                                 tombstones = tombs v, real_uids = ru\<rparr>)))"
            by (auto simp: sync_caldav_busy_def busy_reconcile_def split: option.splits)
          with run [OF src tgt old sm Inr [unfolded res'] p] show ?thesis by blast
        qed
      qed
    qed
  qed
qed

lemma has_src_meta_event:
  assumes "build_src_meta src_events [] = Inr sm" and "has sm uid"
  shows "fst (item sm uid) \<in> set src_events \<and> uid_of (raw (fst (item sm uid))) = Some uid"
proof -
  obtain e r lm where i: "item sm uid = (e, r, lm)" by (cases "item sm uid") auto
  with has_item [OF assms(2)] have "map_of sm uid = Some (e, r, lm)" by simp
  from build_src_meta_sound [OF assms(1) this] i show ?thesis by (simp add: uid_of_def)
qed

lemma has_busy_meta_event:
  assumes "build_tgt_meta tgt_events ([], [], []) = Inr (rm, bm, ru)" and "has bm uid"
  shows "fst (item bm uid) \<in> set tgt_events \<and> uid_of (raw (fst (item bm uid))) = Some uid \<and>
         is_busy_event (fst (item bm uid))"
proof -
  obtain e r lm where i: "item bm uid = (e, r, lm)" by (cases "item bm uid") auto
  with has_item [OF assms(2)] have "map_of bm uid = Some (e, r, lm)" by simp
  from build_tgt_meta_busy_sound [OF assms(1) this] i show ?thesis by (simp add: uid_of_def)
qed

lemma has_real_meta_event:
  assumes "build_tgt_meta tgt_events ([], [], []) = Inr (rm, bm, ru)" and "has rm uid"
  shows "fst (item rm uid) \<in> set tgt_events \<and> uid_of (raw (fst (item rm uid))) = Some uid \<and>
         \<not> is_busy_event (fst (item rm uid))"
proof -
  obtain e r lm where i: "item rm uid = (e, r, lm)" by (cases "item rm uid") auto
  with has_item [OF assms(2)] have "map_of rm uid = Some (e, r, lm)" by simp
  from build_tgt_meta_real_sound [OF assms(1) this] i show ?thesis by (simp add: uid_of_def)
qed

lemma no_src_meta_no_event:
  assumes "build_src_meta src_events [] = Inr sm" and "\<not> has sm uid"
  shows "\<forall>e \<in> set src_events. uid_of (raw e) \<noteq> Some uid"
proof
  fix e assume "e \<in> set src_events"
  from build_src_meta_complete [OF assms(1) this] assms(2) show "uid_of (raw e) \<noteq> Some uid"
    by (auto simp: uid_of_def)
qed

section \<open>Tombstones and busy uids\<close>

text \<open>
  Claim C9, as the code has it.  After a successful BUSY run, a uid that is both in the
  persisted \<open>tombstones\<close> and in the persisted \<open>busy_uids\<close> was a tombstone of the loaded
  state already and has, in the current views, an event on the source and a Busy
  placeholder on the target.  So the two sets are disjoint whenever no tombstone of the
  previous state is present on both sides.
\<close>

theorem busy_tombstones_overlap:
  assumes "sync_caldav_busy f (Some src_events) (Some tgt_events) now put_error = (cs, Inr file')"
  shows "\<exists>old st'. load_busy f = Inr old \<and> file' = Parsed (dump_busy st') \<and>
     set (tombstones st') \<inter> set (busy_uids st') \<subseteq>
       set (tombstones old) \<inter>
       {uid. (\<exists>e \<in> set src_events. uid_of (raw e) = Some uid) \<and>
             (\<exists>e \<in> set tgt_events. uid_of (raw e) = Some uid \<and> is_busy_event e)}"
  using assms
proof (cases rule: sync_caldav_busy_cases)
  case (abort err)
  then show ?thesis by simp
next
  case (run old src_events' tgt_events' sm rm bm ru v r)
  then have ev: "src_events' = src_events" "tgt_events' = tgt_events" and r: "r = None"
    and file': "file' = Parsed (dump_busy \<lparr>synced = new_synced v, busy_uids = new_busy v,
                                           tombstones = tombs v, real_uids = ru\<rparr>)"
    by (auto split: option.splits)
  from run(6) obtain cs0 sm' t0 us where
    t0: "set t0 = set (tombstones old) \<union> {uid \<in> set (real_uids old). \<not> has sm uid} \<union>
              {uid \<in> set (real_uids old). uid \<notin> set ru} \<union>
              {uid \<in> set (busy_uids old). \<not> has bm uid}"
    and sm'_all: "\<forall>k. map_of sm' k =
        (if k \<in> {uid \<in> set (real_uids old). uid \<notin> set ru} \<union>
                 {uid \<in> set (busy_uids old). \<not> has bm uid}
         then None else map_of sm k)"
    and cs0: "set cs0 =
       {delete_event client_target (url (fst (item rm uid))) | uid.
          uid \<in> set (real_uids old) \<and> \<not> has sm uid \<and> has rm uid} \<union>
       {delete_event client_source (url (fst (item sm uid))) | uid.
          (uid \<in> set (real_uids old) \<and> uid \<notin> set ru \<or>
           uid \<in> set (busy_uids old) \<and> \<not> has bm uid) \<and> has sm uid}"
    and us: "distinct us"
    and loop: "busy_loop (synced old) sm' bm ru tgt_events' now put_error us
       \<lparr>calls = cs0, tombs = t0, new_synced = [], new_busy = []\<rparr> = (v, r)"
    by (rule busy_passes_cases)
  from sm'_all have sm': "\<And>k. map_of sm' k =
        (if k \<in> {uid \<in> set (real_uids old). uid \<notin> set ru} \<union>
                 {uid \<in> set (busy_uids old). \<not> has bm uid}
         then None else map_of sm k)" by blast
  let ?I = "\<lambda>(rest :: string list) w. set (tombs w) \<subseteq> set t0 \<and>
              (\<forall>uid \<in> set (new_busy w). has sm' uid \<and> (has bm uid \<or> uid \<notin> set (tombs w)))"
  have "\<exists>rest. ?I rest v"
  proof (rule busy_loop_induct [OF loop, where I = ?I])
    show "?I us \<lparr>calls = cs0, tombs = t0, new_synced = [], new_busy = []\<rparr>" by simp
  next
    fix uid rest w w' r'
    assume i: "?I (uid # rest) w"
      and s: "busy_iter (synced old) sm' bm ru tgt_events' now put_error uid w = (w', r')"
    from s show "?I rest w'"
      by (cases rule: busy_iter_cases) (use i in auto)
  qed
  then have inv: "set (tombs v) \<subseteq> set t0"
    "\<And>uid. uid \<in> set (new_busy v) \<Longrightarrow> has sm' uid \<and> (has bm uid \<or> uid \<notin> set (tombs v))"
    by auto
  have sub: "has sm' uid \<Longrightarrow> has sm uid \<and> (uid \<in> set t0 \<longrightarrow> uid \<in> set (tombstones old))" for uid
    using sm' [of uid] t0 by (auto simp: has_def split: if_splits)
  have "uid \<in> set (tombstones old) \<and> (\<exists>e \<in> set src_events. uid_of (raw e) = Some uid) \<and>
             (\<exists>e \<in> set tgt_events. uid_of (raw e) = Some uid \<and> is_busy_event e)"
    if "uid \<in> set (tombs v)" "uid \<in> set (new_busy v)" for uid
  proof -
    from inv(2) [OF that(2)] that(1) have h: "has sm' uid" "has bm uid" by auto
    from sub [OF h(1)] inv(1) that(1) have "has sm uid" "uid \<in> set (tombstones old)" by auto
    with has_src_meta_event [OF run(4)] has_busy_meta_event [OF run(5) h(2)] ev show ?thesis
      by blast
  qed
  with run(3) file' show ?thesis
    by (intro exI [of _ old] exI [of _ "\<lparr>synced = new_synced v, busy_uids = new_busy v,
                                           tombstones = tombs v, real_uids = ru\<rparr>"]) auto
qed

text \<open>
  Scenario S5: the placeholder of U1 was deleted on B.  The run deletes U1 on A and
  tombstones it; the persisted sets are disjoint.
\<close>

theorem busy_tombstones_overlap_witness:
  "sync_caldav_busy
     (Parsed (dump_busy \<lparr>synced = [(''U1'', 10)], busy_uids = [''U1''],
                         tombstones = [], real_uids = []\<rparr>))
     (Some [lunch_a]) (Some []) (\<lambda>uid. 30) (\<lambda>uid. False) =
     ([delete_event client_source ''a/U1.ics''],
      Inr (Parsed (dump_busy \<lparr>synced = [], busy_uids = [],
                               tombstones = [''U1''], real_uids = []\<rparr>))) \<and>
   (\<exists>old st'.
      load_busy (Parsed (dump_busy \<lparr>synced = [(''U1'', 10)], busy_uids = [''U1''],
                                     tombstones = [], real_uids = []\<rparr>)) = Inr old \<and>
      Parsed (dump_busy \<lparr>synced = [], busy_uids = [],
                         tombstones = [''U1''], real_uids = []\<rparr>) = Parsed (dump_busy st') \<and>
      set (tombstones st') \<inter> set (busy_uids st') \<subseteq>
        set (tombstones old) \<inter>
        {uid. (\<exists>e \<in> set [lunch_a]. uid_of (raw e) = Some uid) \<and>
              (\<exists>e \<in> set []. uid_of (raw e) = Some uid \<and> is_busy_event e)})"
proof -
  have h: "sync_caldav_busy
     (Parsed (dump_busy \<lparr>synced = [(''U1'', 10)], busy_uids = [''U1''],
                         tombstones = [], real_uids = []\<rparr>))
     (Some [lunch_a]) (Some []) (\<lambda>uid. 30) (\<lambda>uid. False) =
     ([delete_event client_source ''a/U1.ics''],
      Inr (Parsed (dump_busy \<lparr>synced = [], busy_uids = [],
                               tombstones = [''U1''], real_uids = []\<rparr>)))"
    by code_simp
  from busy_tombstones_overlap [OF h] h show ?thesis
    by (intro conjI)
qed

text \<open>
  Claim C9 as stated fails on a reachable state.  Run 1 (no state file, "Lunch" on A, B
  empty) creates the placeholder.  Run 2, after the user deleted the placeholder, deletes
  "Lunch" on A and tombstones U1.  Run 3 finds "Lunch" on A again and a Busy placeholder
  of U1 on B with the same timestamp: it issues no call, records U1 in \<open>busy_uids\<close> and
  keeps it in \<open>tombstones\<close>.
\<close>

theorem busy_tombstones_overlap_counterexample:
  "sync_caldav_busy Missing (Some [lunch_a]) (Some []) (\<lambda>uid. 20) (\<lambda>uid. False) =
     ([create_event client_target (raw (busy_b 20))],
      Inr (Parsed (dump_busy \<lparr>synced = [(''U1'', 10)], busy_uids = [''U1''],
                               tombstones = [], real_uids = []\<rparr>))) \<and>
   sync_caldav_busy
     (Parsed (dump_busy \<lparr>synced = [(''U1'', 10)], busy_uids = [''U1''],
                         tombstones = [], real_uids = []\<rparr>))
     (Some [lunch_a]) (Some []) (\<lambda>uid. 30) (\<lambda>uid. False) =
     ([delete_event client_source ''a/U1.ics''],
      Inr (Parsed (dump_busy \<lparr>synced = [], busy_uids = [],
                               tombstones = [''U1''], real_uids = []\<rparr>))) \<and>
   sync_caldav_busy
     (Parsed (dump_busy \<lparr>synced = [], busy_uids = [],
                         tombstones = [''U1''], real_uids = []\<rparr>))
     (Some [lunch_a]) (Some [busy_b 10]) (\<lambda>uid. 40) (\<lambda>uid. False) =
     ([],
      Inr (Parsed (dump_busy \<lparr>synced = [(''U1'', 10)], busy_uids = [''U1''],
                               tombstones = [''U1''], real_uids = []\<rparr>)))"
  by code_simp


section \<open>What a BUSY run does on the target\<close>

text \<open>
  Claim C1, as the code has it.  Every \<open>update_event\<close> a BUSY run issues on the target
  goes to a fetched event whose SUMMARY is "Busy".  Every \<open>delete_event\<close> it issues on the
  target goes to such an event, or (the block before step 5) to a fetched event whose
  SUMMARY is not "Busy", whose uid is in the \<open>real_uids\<close> of the loaded state and which no
  event of the source view carries.  This holds for the calls of a run that ends with an
  exception as well.
\<close>

theorem busy_target_calls:
  assumes "c \<in> set (fst (sync_caldav_busy f (Some src_events) (Some tgt_events) now put_error))"
  shows "(\<forall>u r. c = update_event client_target u r \<longrightarrow>
            (\<exists>e \<in> set tgt_events. url e = u \<and> is_busy_event e)) \<and>
         (\<forall>u. c = delete_event client_target u \<longrightarrow>
            (\<exists>e \<in> set tgt_events. url e = u \<and> is_busy_event e) \<or>
            (\<exists>e \<in> set tgt_events. \<exists>uid old. url e = u \<and> \<not> is_busy_event e \<and>
               uid_of (raw e) = Some uid \<and> load_busy f = Inr old \<and> uid \<in> set (real_uids old) \<and>
               (\<forall>e' \<in> set src_events. uid_of (raw e') \<noteq> Some uid)))"
    (is "?Q c")
proof -
  obtain cs res where s: "sync_caldav_busy f (Some src_events) (Some tgt_events) now put_error = (cs, res)"
    by (cases "sync_caldav_busy f (Some src_events) (Some tgt_events) now put_error") auto
  from s show ?thesis
  proof (cases rule: sync_caldav_busy_cases)
    case (abort err)
    with assms s show ?thesis by simp
  next
    case (run old src_events' tgt_events' sm rm bm ru v r)
    then have ev: "src_events' = src_events" "tgt_events' = tgt_events" by auto
    from run(6) obtain cs0 sm' t0 us where
      t0: "set t0 = set (tombstones old) \<union> {uid \<in> set (real_uids old). \<not> has sm uid} \<union>
              {uid \<in> set (real_uids old). uid \<notin> set ru} \<union>
              {uid \<in> set (busy_uids old). \<not> has bm uid}"
      and sm'_all: "\<forall>k. map_of sm' k =
        (if k \<in> {uid \<in> set (real_uids old). uid \<notin> set ru} \<union>
                 {uid \<in> set (busy_uids old). \<not> has bm uid}
         then None else map_of sm k)"
      and cs0: "set cs0 =
       {delete_event client_target (url (fst (item rm uid))) | uid.
          uid \<in> set (real_uids old) \<and> \<not> has sm uid \<and> has rm uid} \<union>
       {delete_event client_source (url (fst (item sm uid))) | uid.
          (uid \<in> set (real_uids old) \<and> uid \<notin> set ru \<or>
           uid \<in> set (busy_uids old) \<and> \<not> has bm uid) \<and> has sm uid}"
      and us: "distinct us"
      and loop: "busy_loop (synced old) sm' bm ru tgt_events' now put_error us
         \<lparr>calls = cs0, tombs = t0, new_synced = [], new_busy = []\<rparr> = (v, r)"
      by (rule busy_passes_cases)
    have tgt: "build_tgt_meta tgt_events ([], [], []) = Inr (rm, bm, ru)"
      using run(5) ev by simp
    let ?I = "\<lambda>(rest :: string list) w. \<forall>c \<in> set (calls w). ?Q c"
    have "\<exists>rest. ?I rest v"
    proof (rule busy_loop_induct [OF loop, where I = ?I])
      show "?I us \<lparr>calls = cs0, tombs = t0, new_synced = [], new_busy = []\<rparr>"
      proof (simp only: busy_vars.simps, intro ballI)
        fix c assume "c \<in> set cs0"
        with cs0 consider uid where "c = delete_event client_target (url (fst (item rm uid)))"
            "uid \<in> set (real_uids old)" "\<not> has sm uid" "has rm uid"
          | u where "c = delete_event client_source u" by auto
        then show "?Q c"
        proof cases
          case 1
          from has_real_meta_event [OF tgt 1(4)] no_src_meta_no_event [OF run(4) 1(3)] 1 run(3) ev
          show ?thesis by auto
        next
          case 2
          then show ?thesis by simp
        qed
      qed
    next
      fix uid rest w w' r'
      assume i: "?I (uid # rest) w"
        and st: "busy_iter (synced old) sm' bm ru tgt_events' now put_error uid w = (w', r')"
      from st show "?I rest w'"
      proof (cases rule: busy_iter_cases)
        case unchanged
        with i show ?thesis by simp
      next
        case delete
        from has_busy_meta_event [OF tgt delete(3)] i delete show ?thesis by auto
      next
        case (create ds de cs')
        from fallback_absent(1) [OF tgt create(3,2)] create(6) have "cs' = []"
          by (auto simp: ev split: if_splits)
        with i create show ?thesis by auto
      next
        case (create_fail ds de cs' err)
        from fallback_absent(1) [OF tgt create_fail(3,2)] create_fail(7) show ?thesis
          by (simp add: ev)
      next
        case (update_tgt ds de)
        from has_busy_meta_event [OF tgt update_tgt(2)] i update_tgt show ?thesis by auto
      next
        case (update_src updated)
        with i show ?thesis by auto
      next
        case same
        with i show ?thesis by simp
      qed
    qed
    with assms s run(7) show ?thesis by auto
  qed
qed

text \<open>
  "Lunch" on A was modified at 10, its placeholder on B is stamped 5: the run updates the
  placeholder, an event whose SUMMARY is "Busy".
\<close>

theorem busy_target_calls_witness:
  "update_event client_target ''b/U1.ics'' (raw (busy_b 30)) \<in>
     set (fst (sync_caldav_busy
       (Parsed (dump_busy \<lparr>synced = [(''U1'', 10)], busy_uids = [''U1''],
                           tombstones = [], real_uids = []\<rparr>))
       (Some [lunch_a]) (Some [busy_b 5]) (\<lambda>uid. 30) (\<lambda>uid. False))) \<and>
   (\<exists>e \<in> set [busy_b 5]. url e = ''b/U1.ics'' \<and> is_busy_event e)"
proof -
  have h: "update_event client_target ''b/U1.ics'' (raw (busy_b 30)) \<in>
     set (fst (sync_caldav_busy
       (Parsed (dump_busy \<lparr>synced = [(''U1'', 10)], busy_uids = [''U1''],
                           tombstones = [], real_uids = []\<rparr>))
       (Some [lunch_a]) (Some [busy_b 5]) (\<lambda>uid. 30) (\<lambda>uid. False)))"
    by code_simp
  from busy_target_calls [OF h] h show ?thesis
    by blast
qed

text \<open>
  Claim C1 as stated fails: R1 is in the \<open>real_uids\<close> of the previous state, the source
  view is empty and B holds the user's "Meeting" with uid R1.  The run deletes that event,
  whose SUMMARY is "Meeting".
\<close>

theorem busy_target_calls_counterexample:
  "sync_caldav_busy
     (Parsed (dump_busy \<lparr>synced = [], busy_uids = [], tombstones = [], real_uids = [''R1'']\<rparr>))
     (Some []) (Some [meeting_b]) (\<lambda>uid. 30) (\<lambda>uid. False) =
     ([delete_event client_target ''b/R1.ics''],
      Inr (Parsed (dump_busy \<lparr>synced = [], busy_uids = [], tombstones = [''R1''],
                               real_uids = [''R1'']\<rparr>))) \<and>
   url meeting_b = ''b/R1.ics'' \<and> get_summary (raw meeting_b) = Inr (Some ''Meeting'')"
  by code_simp

section \<open>A rejected create is recorded as done\<close>

lemma map_of_dump_entries:
  "map_of (dump_entries ns) uid = map_option JTime (map_of ns uid)"
  by (induction ns) (auto simp: dump_entries_def)

text \<open>
  Claim C10.  In a successful BUSY run, when the \<open>create_event\<close> of the placeholder of a
  uid is answered with \<open>PutError\<close>: no fetched target event carries that uid, the fallback
  loop issues no call, the run issues no \<open>update_event\<close> on the target with bytes of that
  uid, and the document the run writes to the state file has the uid as a key of \<open>synced\<close>
  and as an element of \<open>busy_uids\<close>.
\<close>

theorem busy_put_error_recorded:
  assumes run: "sync_caldav_busy f (Some src_events) (Some tgt_events) now put_error = (cs, Inr file')"
    and created: "create_event client_target ical \<in> set cs"
    and uid: "uid_of ical = Some uid"
    and put: "put_error uid"
  shows "(\<forall>e \<in> set tgt_events. uid_of (raw e) \<noteq> Some uid) \<and>
         fallback tgt_events uid ical = ([], None) \<and>
         (\<forall>u r. update_event client_target u r \<in> set cs \<longrightarrow> uid_of r \<noteq> Some uid) \<and>
         (\<exists>entries busy tomb real lm.
            file' = Parsed (JDict [(''synced'', JDict entries), (''busy_uids'', JList busy),
                                   (''tombstones'', JList tomb), (''real_uids'', JList real)]) \<and>
            map_of entries uid = Some (JTime lm) \<and> JStr uid \<in> set busy)"
  using run
proof (cases rule: sync_caldav_busy_cases)
  case (abort err)
  then show ?thesis by simp
next
  case (run old src_events' tgt_events' sm rm bm ru v r)
  then have ev: "src_events' = src_events" "tgt_events' = tgt_events" and r: "r = None"
    and file': "file' = Parsed (dump_busy \<lparr>synced = new_synced v, busy_uids = new_busy v,
                                           tombstones = tombs v, real_uids = ru\<rparr>)"
    by (auto split: option.splits)
  from run(6) obtain cs0 sm' t0 us where
    t0: "set t0 = set (tombstones old) \<union> {uid \<in> set (real_uids old). \<not> has sm uid} \<union>
            {uid \<in> set (real_uids old). uid \<notin> set ru} \<union>
            {uid \<in> set (busy_uids old). \<not> has bm uid}"
    and sm'_all: "\<forall>k. map_of sm' k =
      (if k \<in> {uid \<in> set (real_uids old). uid \<notin> set ru} \<union>
               {uid \<in> set (busy_uids old). \<not> has bm uid}
       then None else map_of sm k)"
    and cs0: "set cs0 =
     {delete_event client_target (url (fst (item rm uid))) | uid.
        uid \<in> set (real_uids old) \<and> \<not> has sm uid \<and> has rm uid} \<union>
     {delete_event client_source (url (fst (item sm uid))) | uid.
        (uid \<in> set (real_uids old) \<and> uid \<notin> set ru \<or>
         uid \<in> set (busy_uids old) \<and> \<not> has bm uid) \<and> has sm uid}"
    and us: "distinct us"
    and loop: "busy_loop (synced old) sm' bm ru tgt_events' now put_error us
       \<lparr>calls = cs0, tombs = t0, new_synced = [], new_busy = []\<rparr> = (v, r)"
    by (rule busy_passes_cases)
  have tgt: "build_tgt_meta tgt_events ([], [], []) = Inr (rm, bm, ru)"
    using run(5) ev by simp
  let ?C = "\<lambda>w. \<forall>ic. create_event client_target ic \<in> set (calls w) \<longrightarrow>
              (\<exists>k. uid_of ic = Some k \<and> k \<in> set (new_busy w) \<and> has (new_synced w) k \<and>
                   \<not> has bm k \<and> k \<notin> set ru)"
  let ?U = "\<lambda>w. \<forall>u rr. update_event client_target u rr \<in> set (calls w) \<longrightarrow>
              (\<exists>k. uid_of rr = Some k \<and> has bm k)"
  let ?I = "\<lambda>(rest :: string list) w. ?C w \<and> ?U w"
  have "\<exists>rest. ?I rest v"
  proof (rule busy_loop_induct [OF loop, where I = ?I])
    show "?I us \<lparr>calls = cs0, tombs = t0, new_synced = [], new_busy = []\<rparr>"
      using cs0 by auto
  next
    fix k rest w w' r'
    assume i: "?I (k # rest) w"
      and st: "busy_iter (synced old) sm' bm ru tgt_events' now put_error k w = (w', r')"
    from i have c: "?C w" and u: "?U w" by blast+
    from st show "?I rest w'"
    proof (cases rule: busy_iter_cases)
      case unchanged
      with i show ?thesis by simp
    next
      case delete
      with c u show ?thesis by auto
    next
      case (create ds de cs')
      from fallback_absent(1) [OF tgt create(3,2)] create(6) have cs': "cs' = []"
        by (auto simp: ev split: if_splits)
      have "?C w'"
      proof (intro allI impI)
        fix ic assume "create_event client_target ic \<in> set (calls w')"
        with create(7) cs' consider "create_event client_target ic \<in> set (calls w)"
          | "ic = build_busy_ical (now k) k ds de" by auto
        then show "\<exists>k. uid_of ic = Some k \<and> k \<in> set (new_busy w') \<and> has (new_synced w') k \<and>
                   \<not> has bm k \<and> k \<notin> set ru"
        proof cases
          case 1
          with c obtain j where "uid_of ic = Some j" "j \<in> set (new_busy w)" "has (new_synced w) j"
            "\<not> has bm j" "j \<notin> set ru" by blast
          with create(9,10) show ?thesis by (auto simp: has_update)
        next
          case 2
          with create(2,3,9,10) show ?thesis
            by (auto simp: uid_of_build_busy_ical has_update)
        qed
      qed
      moreover have "?U w'" using u create(7) cs' by auto
      ultimately show ?thesis by blast
    next
      case (create_fail ds de cs' err)
      from fallback_absent(1) [OF tgt create_fail(3,2)] create_fail(7) show ?thesis
        by (simp add: ev)
    next
      case (update_tgt ds de)
      have "?C w'" using c update_tgt by (auto simp: has_update)
      moreover have "?U w'" using u update_tgt by (auto simp: uid_of_build_busy_ical)
      ultimately show ?thesis by blast
    next
      case (update_src updated)
      have "?C w'" using c update_src by (auto simp: has_update)
      moreover have "?U w'" using u update_src by auto
      ultimately show ?thesis by blast
    next
      case same
      have "?C w'" using c same by (auto simp: has_update)
      moreover have "?U w'" using u same by auto
      ultimately show ?thesis by blast
    qed
  qed
  then have C: "?C v" and U: "?U v" by blast+
  from C created uid run(7) have k: "uid \<in> set (new_busy v)" "has (new_synced v) uid"
    "\<not> has bm uid" "uid \<notin> set ru" by auto
  from fallback_absent [OF tgt k(4,3)] have 1: "\<forall>e \<in> set tgt_events. uid_of (raw e) \<noteq> Some uid"
    and 2: "fallback tgt_events uid ical = ([], None)" by auto
  have 3: "\<forall>u r. update_event client_target u r \<in> set cs \<longrightarrow> uid_of r \<noteq> Some uid"
  proof (intro allI impI notI)
    fix u rr assume "update_event client_target u rr \<in> set cs" "uid_of rr = Some uid"
    with U run(7) have "has bm uid" by fastforce
    with k(3) show False by simp
  qed
  from k(2) obtain lm where lm: "map_of (new_synced v) uid = Some lm"
    by (auto simp: has_def)
  have 4: "\<exists>entries busy tomb real lm.
            file' = Parsed (JDict [(''synced'', JDict entries), (''busy_uids'', JList busy),
                                   (''tombstones'', JList tomb), (''real_uids'', JList real)]) \<and>
            map_of entries uid = Some (JTime lm) \<and> JStr uid \<in> set busy"
    using k(1) lm file' by (simp add: dump_busy_def map_of_dump_entries)
  from 1 2 3 4 show ?thesis by blast
qed

text \<open>
  Scenario S4 with the user's "Meeting" on B and a backend that rejects the create: the
  fallback loop passes over "Meeting" and issues nothing, and the document written has U1
  in \<open>synced\<close> and in \<open>busy_uids\<close>.
\<close>

theorem busy_put_error_recorded_witness:
  "sync_caldav_busy Missing (Some [lunch_a]) (Some [meeting_b]) (\<lambda>uid. 20) (\<lambda>uid. True) =
     ([create_event client_target (raw (busy_b 20))],
      Inr (Parsed (JDict [(''synced'', JDict [(''U1'', JTime 10)]),
                          (''busy_uids'', JList [JStr ''U1'']),
                          (''tombstones'', JList []),
                          (''real_uids'', JList [JStr ''R1''])]))) \<and>
   uid_of (raw (busy_b 20)) = Some ''U1'' \<and>
   fallback [meeting_b] ''U1'' (raw (busy_b 20)) = ([], None)"
proof -
  have h1: "sync_caldav_busy Missing (Some [lunch_a]) (Some [meeting_b]) (\<lambda>uid. 20) (\<lambda>uid. True) =
     ([create_event client_target (raw (busy_b 20))],
      Inr (Parsed (JDict [(''synced'', JDict [(''U1'', JTime 10)]),
                          (''busy_uids'', JList [JStr ''U1'']),
                          (''tombstones'', JList []),
                          (''real_uids'', JList [JStr ''R1''])])))"
    by code_simp
  have h2: "create_event client_target (raw (busy_b 20)) \<in>
              set [create_event client_target (raw (busy_b 20))]"
    by simp
  have h3: "uid_of (raw (busy_b 20)) = Some ''U1''"
    by (simp add: busy_b_def uid_of_build_busy_ical)
  have h4: "(\<lambda>uid :: string. True) ''U1''"
    by simp
  from busy_put_error_recorded [OF h1 h2 h3 h4]
  have "fallback [meeting_b] ''U1'' (raw (busy_b 20)) = ([], None)"
    by blast
  with h1 h3 show ?thesis
    by (intro conjI)
qed

section \<open>Tombstones resist resurrection\<close>

lemma build_src_meta_total:
  "\<forall>e \<in> set evts. uid_of (raw e) \<noteq> None \<Longrightarrow> \<exists>sm. build_src_meta evts acc = Inr sm"
  by (induction evts arbitrary: acc) (auto simp: uid_of_def split: sum.splits)

lemma get_summary_total:
  "uid_of r \<noteq> None \<Longrightarrow> \<exists>s. get_summary r = Inr s"
  by (auto simp: uid_of_def parse_ical_metadata_def get_summary_def
      split: ical.splits option.splits sum.splits)

lemma build_tgt_meta_total:
  "\<forall>e \<in> set evts. uid_of (raw e) \<noteq> None \<Longrightarrow> \<exists>res. build_tgt_meta evts acc = Inr res"
proof (induction evts arbitrary: acc)
  case Nil
  show ?case by (rule exI [of _ acc]) simp
next
  case (Cons x evts)
  obtain rm bm ru where acc: "acc = (rm, bm, ru)" by (cases acc) auto
  from Cons.prems obtain u t where p: "parse_ical_metadata (raw x) = Inr (u, t)"
    by (auto simp: uid_of_def split: sum.splits)
  from Cons.prems get_summary_total [of "raw x"] obtain s where g: "get_summary (raw x) = Inr s"
    by auto
  from Cons.prems have "\<forall>e \<in> set evts. uid_of (raw e) \<noteq> None" by simp
  from Cons.IH [OF this] p g show ?case
    by (simp add: acc)
qed

lemma fallback_calls:
  "c \<in> set (fst (fallback evts uid ical)) \<Longrightarrow> \<exists>u. c = update_event client_target u ical"
  by (induction evts) (auto split: sum.splits if_splits)

lemma sync_caldav_busy_run:
  assumes "load_busy f = Inr old" and "build_src_meta src_events [] = Inr sm"
    and "build_tgt_meta tgt_events ([], [], []) = Inr (rm, bm, ru)"
    and "busy_passes old sm rm bm ru tgt_events now pe = (v, r)"
  shows "sync_caldav_busy f (Some src_events) (Some tgt_events) now pe =
     (calls v, case r of Some err \<Rightarrow> Inl err
              | None \<Rightarrow> Inr (Parsed (dump_busy \<lparr>synced = new_synced v, busy_uids = new_busy v,
                                                 tombstones = tombs v, real_uids = ru\<rparr>)))"
  using assms by (auto simp: sync_caldav_busy_def busy_reconcile_def split: option.splits)

text \<open>A placeholder deleted on B: the source event is deleted and the uid tombstoned.\<close>

lemma busy_deleted_placeholder:
  assumes old: "load_busy f = Inr old" and U: "U \<in> set (busy_uids old)"
    and sm: "build_src_meta src_events [] = Inr sm" and hs: "has sm U"
    and tgt: "build_tgt_meta tgt_events ([], [], []) = Inr (rm, bm, ru)" and nb: "\<not> has bm U"
  shows "delete_event client_source (url (fst (item sm U))) \<in>
           set (fst (sync_caldav_busy f (Some src_events) (Some tgt_events) now pe)) \<and>
         (\<forall>file'. snd (sync_caldav_busy f (Some src_events) (Some tgt_events) now pe) = Inr file' \<longrightarrow>
            (\<exists>st'. file' = Parsed (dump_busy st') \<and> U \<in> set (tombstones st') \<and>
                   U \<notin> set (busy_uids st')))"
proof -
  obtain v r where p: "busy_passes old sm rm bm ru tgt_events now pe = (v, r)"
    by (cases "busy_passes old sm rm bm ru tgt_events now pe") auto
  note run = sync_caldav_busy_run [OF old sm tgt p]
  from p obtain cs0 sm' t0 us where
    t0: "set t0 = set (tombstones old) \<union> {uid \<in> set (real_uids old). \<not> has sm uid} \<union>
            {uid \<in> set (real_uids old). uid \<notin> set ru} \<union>
            {uid \<in> set (busy_uids old). \<not> has bm uid}"
    and sm'_all: "\<forall>k. map_of sm' k =
      (if k \<in> {uid \<in> set (real_uids old). uid \<notin> set ru} \<union>
               {uid \<in> set (busy_uids old). \<not> has bm uid}
       then None else map_of sm k)"
    and cs0: "set cs0 =
     {delete_event client_target (url (fst (item rm uid))) | uid.
        uid \<in> set (real_uids old) \<and> \<not> has sm uid \<and> has rm uid} \<union>
     {delete_event client_source (url (fst (item sm uid))) | uid.
        (uid \<in> set (real_uids old) \<and> uid \<notin> set ru \<or>
         uid \<in> set (busy_uids old) \<and> \<not> has bm uid) \<and> has sm uid}"
    and us: "distinct us"
    and loop: "busy_loop (synced old) sm' bm ru tgt_events now pe us
       \<lparr>calls = cs0, tombs = t0, new_synced = [], new_busy = []\<rparr> = (v, r)"
    by (rule busy_passes_cases)
  from U nb hs cs0 have d0: "delete_event client_source (url (fst (item sm U))) \<in> set cs0"
    by auto
  from U nb t0 have u0: "U \<in> set t0" by auto
  from U nb sm'_all have ns: "\<not> has sm' U" by (simp add: has_def)
  let ?I = "\<lambda>(rest :: string list) w. set cs0 \<subseteq> set (calls w) \<and> U \<in> set (tombs w) \<and>
              U \<notin> set (new_busy w)"
  have "\<exists>rest. ?I rest v"
  proof (rule busy_loop_induct [OF loop, where I = ?I])
    show "?I us \<lparr>calls = cs0, tombs = t0, new_synced = [], new_busy = []\<rparr>"
      using u0 by simp
  next
    fix k rest w w' r'
    assume i: "?I (k # rest) w"
      and st: "busy_iter (synced old) sm' bm ru tgt_events now pe k w = (w', r')"
    from st show "?I rest w'"
      by (cases rule: busy_iter_cases) (use i nb ns in auto)
  qed
  then have inv: "set cs0 \<subseteq> set (calls v)" "U \<in> set (tombs v)" "U \<notin> set (new_busy v)"
    by auto
  from inv(1) d0 run have 1: "delete_event client_source (url (fst (item sm U))) \<in>
           set (fst (sync_caldav_busy f (Some src_events) (Some tgt_events) now pe))"
    by auto
  have 2: "\<exists>st'. file' = Parsed (dump_busy st') \<and> U \<in> set (tombstones st') \<and> U \<notin> set (busy_uids st')"
    if "snd (sync_caldav_busy f (Some src_events) (Some tgt_events) now pe) = Inr file'" for file'
  proof -
    from that run have "file' = Parsed (dump_busy \<lparr>synced = new_synced v, busy_uids = new_busy v,
                                                 tombstones = tombs v, real_uids = ru\<rparr>)"
      by (auto split: option.splits)
    with inv show ?thesis
      by (intro exI [of _ "\<lparr>synced = new_synced v, busy_uids = new_busy v,
                                                 tombstones = tombs v, real_uids = ru\<rparr>"]) simp
  qed
  from 1 2 show ?thesis by blast
qed

text \<open>No placeholder is created for a uid that is a tombstone of the loaded state.\<close>

lemma busy_tombstone_no_create:
  assumes old: "load_busy f = Inr old" and U: "U \<in> set (tombstones old)"
    and c: "create_event client_target ical \<in> set (fst (sync_caldav_busy f cal_src cal_tgt now pe))"
  shows "uid_of ical \<noteq> Some U"
proof -
  obtain cs res where s: "sync_caldav_busy f cal_src cal_tgt now pe = (cs, res)"
    by (cases "sync_caldav_busy f cal_src cal_tgt now pe") auto
  from s show ?thesis
  proof (cases rule: sync_caldav_busy_cases)
    case (abort err)
    with c s show ?thesis by simp
  next
    case (run old' src_events tgt_events sm rm bm ru v r)
    with old have [simp]: "old' = old" by simp
    from run(6) obtain cs0 sm' t0 us where
      t0: "set t0 = set (tombstones old') \<union> {uid \<in> set (real_uids old'). \<not> has sm uid} \<union>
              {uid \<in> set (real_uids old'). uid \<notin> set ru} \<union>
              {uid \<in> set (busy_uids old'). \<not> has bm uid}"
      and sm'_all: "\<forall>k. map_of sm' k =
        (if k \<in> {uid \<in> set (real_uids old'). uid \<notin> set ru} \<union>
                 {uid \<in> set (busy_uids old'). \<not> has bm uid}
         then None else map_of sm k)"
      and cs0: "set cs0 =
       {delete_event client_target (url (fst (item rm uid))) | uid.
          uid \<in> set (real_uids old') \<and> \<not> has sm uid \<and> has rm uid} \<union>
       {delete_event client_source (url (fst (item sm uid))) | uid.
          (uid \<in> set (real_uids old') \<and> uid \<notin> set ru \<or>
           uid \<in> set (busy_uids old') \<and> \<not> has bm uid) \<and> has sm uid}"
      and us: "distinct us"
      and loop: "busy_loop (synced old') sm' bm ru tgt_events now pe us
         \<lparr>calls = cs0, tombs = t0, new_synced = [], new_busy = []\<rparr> = (v, r)"
      by (rule busy_passes_cases)
    from U t0 have u0: "U \<in> set t0" by simp
    let ?N = "\<lambda>w. \<forall>ic. create_event client_target ic \<in> set (calls w) \<longrightarrow> uid_of ic \<noteq> Some U"
    let ?I = "\<lambda>rest w. distinct rest \<and> (U \<in> set (tombs w) \<or> U \<notin> set rest) \<and> ?N w"
    have "\<exists>rest. ?I rest v"
    proof (rule busy_loop_induct [OF loop, where I = ?I])
      show "?I us \<lparr>calls = cs0, tombs = t0, new_synced = [], new_busy = []\<rparr>"
        using u0 us cs0 by auto
    next
      fix k rest w w' r'
      assume i: "?I (k # rest) w"
        and st: "busy_iter (synced old') sm' bm ru tgt_events now pe k w = (w', r')"
      from i have d: "distinct rest" "k \<notin> set rest" and t: "U \<in> set (tombs w) \<or> (U \<noteq> k \<and> U \<notin> set rest)"
        and n: "?N w" by auto
      from st show "?I rest w'"
      proof (cases rule: busy_iter_cases)
        case unchanged
        with d t n show ?thesis by auto
      next
        case delete
        with d t n show ?thesis by auto
      next
        case (create ds de cs')
        from create(4) t have ne: "k \<noteq> U" by auto
        have "\<forall>c \<in> set cs'. \<exists>u. c = update_event client_target u (build_busy_ical (now k) k ds de)"
          using create(6) fallback_calls [of _ tgt_events k "build_busy_ical (now k) k ds de"]
          by (auto split: if_splits)
        with create(7) n ne have "?N w'"
          by (auto simp: uid_of_build_busy_ical)
        with d t create(8) show ?thesis by auto
      next
        case (create_fail ds de cs' err)
        from create_fail(4) t have ne: "k \<noteq> U" by auto
        have "\<forall>c \<in> set cs'. \<exists>u. c = update_event client_target u (build_busy_ical (now k) k ds de)"
          using create_fail(7) fallback_calls [of _ tgt_events k "build_busy_ical (now k) k ds de"]
          by auto
        with create_fail(8) n ne have "?N w'"
          by (auto simp: uid_of_build_busy_ical)
        with d t create_fail(9) show ?thesis by auto
      next
        case (update_tgt ds de)
        with d t n show ?thesis by auto
      next
        case (update_src updated)
        with d t n show ?thesis by auto
      next
        case same
        with d t n show ?thesis by auto
      qed
    qed
    with c s run(7) show ?thesis by auto
  qed
qed

text \<open>
  A tombstone of the loaded state is dropped only in a run after which the uid is absent
  from the source.
\<close>

lemma busy_tombstone_kept:
  assumes old: "load_busy f = Inr old" and U: "U \<in> set (tombstones old)"
    and s: "sync_caldav_busy f (Some src_events) (Some tgt_events) now pe = (cs, Inr file')"
  shows "\<exists>st'. file' = Parsed (dump_busy st') \<and>
           (U \<in> set (tombstones st') \<or>
            (\<forall>e \<in> set src_events. uid_of (raw e) \<noteq> Some U) \<or>
            (\<exists>e \<in> set src_events. uid_of (raw e) = Some U \<and>
                delete_event client_source (url e) \<in> set cs))"
  using s
proof (cases rule: sync_caldav_busy_cases)
  case (abort err)
  then show ?thesis by simp
next
  case (run old' src_events' tgt_events' sm rm bm ru v r)
  with old have [simp]: "old' = old" "src_events' = src_events" "tgt_events' = tgt_events" by auto
  from run have r: "r = None"
    and file': "file' = Parsed (dump_busy \<lparr>synced = new_synced v, busy_uids = new_busy v,
                                           tombstones = tombs v, real_uids = ru\<rparr>)"
    by (auto split: option.splits)
  from run(6) obtain cs0 sm' t0 us where
    t0: "set t0 = set (tombstones old') \<union> {uid \<in> set (real_uids old'). \<not> has sm uid} \<union>
            {uid \<in> set (real_uids old'). uid \<notin> set ru} \<union>
            {uid \<in> set (busy_uids old'). \<not> has bm uid}"
    and sm'_all: "\<forall>k. map_of sm' k =
      (if k \<in> {uid \<in> set (real_uids old'). uid \<notin> set ru} \<union>
               {uid \<in> set (busy_uids old'). \<not> has bm uid}
       then None else map_of sm k)"
    and cs0: "set cs0 =
     {delete_event client_target (url (fst (item rm uid))) | uid.
        uid \<in> set (real_uids old') \<and> \<not> has sm uid \<and> has rm uid} \<union>
     {delete_event client_source (url (fst (item sm uid))) | uid.
        (uid \<in> set (real_uids old') \<and> uid \<notin> set ru \<or>
         uid \<in> set (busy_uids old') \<and> \<not> has bm uid) \<and> has sm uid}"
    and us: "distinct us"
    and loop: "busy_loop (synced old') sm' bm ru tgt_events' now pe us
       \<lparr>calls = cs0, tombs = t0, new_synced = [], new_busy = []\<rparr> = (v, r)"
    by (rule busy_passes_cases)
  from U t0 have u0: "U \<in> set t0" by simp
  let ?I = "\<lambda>(rest :: string list) w. set cs0 \<subseteq> set (calls w) \<and> (U \<in> set (tombs w) \<or> \<not> has sm' U)"
  have "\<exists>rest. ?I rest v"
  proof (rule busy_loop_induct [OF loop, where I = ?I])
    show "?I us \<lparr>calls = cs0, tombs = t0, new_synced = [], new_busy = []\<rparr>"
      using u0 by simp
  next
    fix k rest w w' r'
    assume i: "?I (k # rest) w"
      and st: "busy_iter (synced old') sm' bm ru tgt_events' now pe k w = (w', r')"
    from st show "?I rest w'"
      by (cases rule: busy_iter_cases) (use i in auto)
  qed
  then have inv: "set cs0 \<subseteq> set (calls v)" "U \<in> set (tombs v) \<or> \<not> has sm' U" by auto
  have "U \<in> set (tombs v) \<or>
            (\<forall>e \<in> set src_events. uid_of (raw e) \<noteq> Some U) \<or>
            (\<exists>e \<in> set src_events. uid_of (raw e) = Some U \<and>
                delete_event client_source (url e) \<in> set cs)"
  proof (cases "U \<in> set (tombs v)")
    case True
    then show ?thesis by simp
  next
    case False
    with inv have ns: "\<not> has sm' U" by simp
    show ?thesis
    proof (cases "has sm U")
      case False
      from no_src_meta_no_event [OF run(4) False] show ?thesis by simp
    next
      case True
      with ns sm'_all have "U \<in> {uid \<in> set (real_uids old'). uid \<notin> set ru} \<union>
               {uid \<in> set (busy_uids old'). \<not> has bm uid}"
        by (auto simp: has_def split: if_splits)
      with True cs0 have "delete_event client_source (url (fst (item sm U))) \<in> set cs0"
        by auto
      with inv(1) run(7) have "delete_event client_source (url (fst (item sm U))) \<in> set cs"
        by auto
      with has_src_meta_event [OF run(4) True] show ?thesis by auto
    qed
  qed
  with file' show ?thesis
    by (intro exI [of _ "\<lparr>synced = new_synced v, busy_uids = new_busy v,
                                           tombstones = tombs v, real_uids = ru\<rparr>"]) simp
qed

text \<open>
  Claim C3.  Let the loaded state have U in \<open>busy_uids\<close>, let both views parse, let the
  source view hold an event with uid U and the target view hold no Busy event with uid U.
  Then the run issues a \<open>delete_event\<close> on the source for an event with uid U, and the
  state it persists, if it persists one, has U in \<open>tombstones\<close> and not in \<open>busy_uids\<close>.
  In every run whose loaded state has U in \<open>tombstones\<close>, no \<open>create_event\<close> is issued on
  the target with bytes of uid U; and if such a run persists a state without the tombstone
  U, then the source view held no event with uid U or the run deleted that event on the
  source: a placeholder of U can be created again only after U has left the source.
\<close>

theorem busy_tombstone_resists:
  assumes old: "load_busy f = Inr old"
    and U: "U \<in> set (busy_uids old)"
    and parse: "\<forall>e \<in> set src_events \<union> set tgt_events. uid_of (raw e) \<noteq> None"
    and src: "\<exists>e \<in> set src_events. uid_of (raw e) = Some U"
    and tgt: "\<forall>e \<in> set tgt_events. is_busy_event e \<longrightarrow> uid_of (raw e) \<noteq> Some U"
  shows "(\<exists>e \<in> set src_events. uid_of (raw e) = Some U \<and>
            delete_event client_source (url e) \<in>
              set (fst (sync_caldav_busy f (Some src_events) (Some tgt_events) now put_error))) \<and>
         (\<forall>file'. snd (sync_caldav_busy f (Some src_events) (Some tgt_events) now put_error) = Inr file' \<longrightarrow>
            (\<exists>st'. file' = Parsed (dump_busy st') \<and> U \<in> set (tombstones st') \<and>
                   U \<notin> set (busy_uids st'))) \<and>
         (\<forall>f2 old2 cal_src2 cal_tgt2 now2 pe2 ical.
            load_busy f2 = Inr old2 \<and> U \<in> set (tombstones old2) \<and>
            create_event client_target ical \<in>
              set (fst (sync_caldav_busy f2 cal_src2 cal_tgt2 now2 pe2)) \<longrightarrow>
            uid_of ical \<noteq> Some U) \<and>
         (\<forall>f2 old2 src2 tgt2 now2 pe2 cs2 file2.
            load_busy f2 = Inr old2 \<and> U \<in> set (tombstones old2) \<and>
            sync_caldav_busy f2 (Some src2) (Some tgt2) now2 pe2 = (cs2, Inr file2) \<longrightarrow>
            (\<exists>st2. file2 = Parsed (dump_busy st2) \<and>
               (U \<in> set (tombstones st2) \<or>
                (\<forall>e \<in> set src2. uid_of (raw e) \<noteq> Some U) \<or>
                (\<exists>e \<in> set src2. uid_of (raw e) = Some U \<and>
                    delete_event client_source (url e) \<in> set cs2))))"
proof -
  from parse obtain sm where sm: "build_src_meta src_events [] = Inr sm"
    using build_src_meta_total [of src_events "[]"] by auto
  from parse obtain res where "build_tgt_meta tgt_events ([], [], []) = Inr res"
    using build_tgt_meta_total [of tgt_events "([], [], [])"] by auto
  then obtain rm bm ru where tm: "build_tgt_meta tgt_events ([], [], []) = Inr (rm, bm, ru)"
    by (cases res) auto
  from src obtain e where e: "e \<in> set src_events" "uid_of (raw e) = Some U" by blast
  from build_src_meta_complete [OF sm e(1)] e(2) have hs: "has sm U"
    by (auto simp: uid_of_def)
  have nb: "\<not> has bm U"
  proof
    assume "has bm U"
    from has_busy_meta_event [OF tm this] tgt show False by blast
  qed
  from busy_deleted_placeholder [OF old U sm hs tm nb, of now put_error]
    has_src_meta_event [OF sm hs]
  have a: "(\<exists>e \<in> set src_events. uid_of (raw e) = Some U \<and>
            delete_event client_source (url e) \<in>
              set (fst (sync_caldav_busy f (Some src_events) (Some tgt_events) now put_error))) \<and>
         (\<forall>file'. snd (sync_caldav_busy f (Some src_events) (Some tgt_events) now put_error) = Inr file' \<longrightarrow>
            (\<exists>st'. file' = Parsed (dump_busy st') \<and> U \<in> set (tombstones st') \<and>
                   U \<notin> set (busy_uids st')))"
    by blast
  have b: "\<forall>f2 old2 cal_src2 cal_tgt2 now2 pe2 ical.
            load_busy f2 = Inr old2 \<and> U \<in> set (tombstones old2) \<and>
            create_event client_target ical \<in>
              set (fst (sync_caldav_busy f2 cal_src2 cal_tgt2 now2 pe2)) \<longrightarrow>
            uid_of ical \<noteq> Some U"
    using busy_tombstone_no_create by blast
  have c: "\<forall>f2 old2 src2 tgt2 now2 pe2 cs2 file2.
            load_busy f2 = Inr old2 \<and> U \<in> set (tombstones old2) \<and>
            sync_caldav_busy f2 (Some src2) (Some tgt2) now2 pe2 = (cs2, Inr file2) \<longrightarrow>
            (\<exists>st2. file2 = Parsed (dump_busy st2) \<and>
               (U \<in> set (tombstones st2) \<or>
                (\<forall>e \<in> set src2. uid_of (raw e) \<noteq> Some U) \<or>
                (\<exists>e \<in> set src2. uid_of (raw e) = Some U \<and>
                    delete_event client_source (url e) \<in> set cs2)))"
    using busy_tombstone_kept by blast
  from a b c show ?thesis by blast
qed

text \<open>
  Scenario S5.  The placeholder of U1 is gone from B: the run deletes "Lunch" on A and
  tombstones U1.  A later run from that state, with "Lunch" on A again, creates nothing.
\<close>

theorem busy_tombstone_resists_witness:
  "load_busy (Parsed (dump_busy \<lparr>synced = [(''U1'', 10)], busy_uids = [''U1''],
                                 tombstones = [], real_uids = []\<rparr>)) =
     Inr \<lparr>synced = [(''U1'', 10)], busy_uids = [''U1''], tombstones = [], real_uids = []\<rparr> \<and>
   ''U1'' \<in> set (busy_uids \<lparr>synced = [(''U1'', 10)], busy_uids = [''U1''],
                             tombstones = [], real_uids = []\<rparr>) \<and>
   uid_of (raw lunch_a) = Some ''U1'' \<and>
   (\<exists>e \<in> set [lunch_a]. uid_of (raw e) = Some ''U1'' \<and>
      delete_event client_source (url e) \<in>
        set (fst (sync_caldav_busy
          (Parsed (dump_busy \<lparr>synced = [(''U1'', 10)], busy_uids = [''U1''],
                              tombstones = [], real_uids = []\<rparr>))
          (Some [lunch_a]) (Some []) (\<lambda>uid. 30) (\<lambda>uid. False)))) \<and>
   sync_caldav_busy
     (Parsed (dump_busy \<lparr>synced = [(''U1'', 10)], busy_uids = [''U1''],
                         tombstones = [], real_uids = []\<rparr>))
     (Some [lunch_a]) (Some []) (\<lambda>uid. 30) (\<lambda>uid. False) =
     ([delete_event client_source ''a/U1.ics''],
      Inr (Parsed (dump_busy \<lparr>synced = [], busy_uids = [],
                               tombstones = [''U1''], real_uids = []\<rparr>))) \<and>
   sync_caldav_busy
     (Parsed (dump_busy \<lparr>synced = [], busy_uids = [],
                         tombstones = [''U1''], real_uids = []\<rparr>))
     (Some [lunch_a]) (Some []) (\<lambda>uid. 40) (\<lambda>uid. False) =
     ([],
      Inr (Parsed (dump_busy \<lparr>synced = [], busy_uids = [],
                               tombstones = [''U1''], real_uids = []\<rparr>)))"
proof -
  have h1: "load_busy (Parsed (dump_busy \<lparr>synced = [(''U1'', 10)], busy_uids = [''U1''],
                                 tombstones = [], real_uids = []\<rparr>)) =
     Inr \<lparr>synced = [(''U1'', 10)], busy_uids = [''U1''], tombstones = [], real_uids = []\<rparr>"
    by code_simp
  have h2: "''U1'' \<in> set (busy_uids \<lparr>synced = [(''U1'', 10)], busy_uids = [''U1''],
                             tombstones = [], real_uids = []\<rparr>)"
    by simp
  have u: "uid_of (raw lunch_a) = Some ''U1''"
    by code_simp
  have h3: "\<forall>e \<in> set [lunch_a] \<union> set []. uid_of (raw e) \<noteq> None"
    using u by simp
  have h4: "\<exists>e \<in> set [lunch_a]. uid_of (raw e) = Some ''U1''"
    using u by simp
  have h5: "\<forall>e \<in> set []. is_busy_event e \<longrightarrow> uid_of (raw e) \<noteq> Some ''U1''"
    by simp
  have r1: "sync_caldav_busy
     (Parsed (dump_busy \<lparr>synced = [(''U1'', 10)], busy_uids = [''U1''],
                         tombstones = [], real_uids = []\<rparr>))
     (Some [lunch_a]) (Some []) (\<lambda>uid. 30) (\<lambda>uid. False) =
     ([delete_event client_source ''a/U1.ics''],
      Inr (Parsed (dump_busy \<lparr>synced = [], busy_uids = [],
                               tombstones = [''U1''], real_uids = []\<rparr>)))"
    by code_simp
  have r2: "sync_caldav_busy
     (Parsed (dump_busy \<lparr>synced = [], busy_uids = [],
                         tombstones = [''U1''], real_uids = []\<rparr>))
     (Some [lunch_a]) (Some []) (\<lambda>uid. 40) (\<lambda>uid. False) =
     ([],
      Inr (Parsed (dump_busy \<lparr>synced = [], busy_uids = [],
                               tombstones = [''U1''], real_uids = []\<rparr>)))"
    by code_simp
  from busy_tombstone_resists [OF h1 h2 h3 h4 h5, of "\<lambda>uid. 30" "\<lambda>uid. False"]
  have "\<exists>e \<in> set [lunch_a]. uid_of (raw e) = Some ''U1'' \<and>
      delete_event client_source (url e) \<in>
        set (fst (sync_caldav_busy
          (Parsed (dump_busy \<lparr>synced = [(''U1'', 10)], busy_uids = [''U1''],
                              tombstones = [], real_uids = []\<rparr>))
          (Some [lunch_a]) (Some []) (\<lambda>uid. 30) (\<lambda>uid. False)))"
    by blast
  with h1 h2 u r1 r2 show ?thesis
    by (intro conjI)
qed

section \<open>The persist writes in place\<close>













end
